theory Spec2Isabelle
  imports Complex_Main
begin

section \<open>The colour resolver of \<^verbatim>\<open>packages/kumo-figma/scripts/color-utils.ts\<close>\<close>

text \<open>
  A shallow embedding of \<^verbatim>\<open>resolveColor\<close> and its three helpers. Strings are
  \<open>string\<close>, that is, lists of code units below 256. A JavaScript number is either
  \<open>NaN\<close> or an exact real: rounding to a double and overflow to an infinity are left out.
  An exception is a value of the type \<open>error\<close>, named after the message it carries.
\<close>

subsection \<open>Strings\<close>

text \<open>
  The white space of \<^verbatim>\<open>trim\<close>, \<^verbatim>\<open>trimEnd\<close> and of \<^verbatim>\<open>\s\<close> in a regular
  expression: tab, line feed, vertical tab, form feed, carriage return, space and the
  no-break space (the members below 256 of ECMAScript's WhiteSpace and LineTerminator).
\<close>

definition isWhiteSpace :: "char \<Rightarrow> bool" where
  "isWhiteSpace ch \<longleftrightarrow>
     ch = CHR 0x09 \<or> ch = CHR 0x0A \<or> ch = CHR 0x0B \<or> ch = CHR 0x0C \<or> ch = CHR 0x0D \<or>
     ch = CHR 0x20 \<or> ch = CHR 0xA0"

definition trimStart :: "string \<Rightarrow> string" where
  "trimStart s = dropWhile isWhiteSpace s"

definition trimEnd :: "string \<Rightarrow> string" where
  "trimEnd s = rev (dropWhile isWhiteSpace (rev s))"

definition trim :: "string \<Rightarrow> string" where
  "trim s = trimEnd (trimStart s)"

definition startsWith :: "string \<Rightarrow> string \<Rightarrow> bool" where
  "startsWith s p \<longleftrightarrow> take (length p) s = p"

definition endsWith :: "string \<Rightarrow> string \<Rightarrow> bool" where
  "endsWith s p \<longleftrightarrow> length p \<le> length s \<and> drop (length s - length p) s = p"

text \<open>
  \<^verbatim>\<open>s.slice(from, to)\<close> and \<^verbatim>\<open>s.substring(from, to)\<close> for indices that are not
  negative, as they are at every call of the source: past the end they stop at the end,
  and \<open>to \<le> from\<close> gives the empty string.
\<close>

definition slice :: "string \<Rightarrow> nat \<Rightarrow> nat \<Rightarrow> string" where
  "slice s from to = take (to - from) (drop from s)"

subsection \<open>Numbers\<close>

datatype jsnum = NaN | Num real

text \<open>Division by a constant that is not zero (100 and 255 in the source).\<close>

fun divBy :: "jsnum \<Rightarrow> real \<Rightarrow> jsnum" where
  "divBy NaN d = NaN"
| "divBy (Num x) d = Num (x / d)"

text \<open>\<^verbatim>\<open>Math.min\<close> and \<^verbatim>\<open>Math.max\<close> return NaN as soon as an argument is NaN.\<close>

fun mathMin :: "jsnum \<Rightarrow> jsnum \<Rightarrow> jsnum" where
  "mathMin (Num x) (Num y) = Num (min x y)"
| "mathMin _ _ = NaN"

fun mathMax :: "jsnum \<Rightarrow> jsnum \<Rightarrow> jsnum" where
  "mathMax (Num x) (Num y) = Num (max x y)"
| "mathMax _ _ = NaN"

definition isDigit :: "char \<Rightarrow> bool" where
  "isDigit ch \<longleftrightarrow> ch \<in> set ''0123456789''"

definition digitValue :: "char \<Rightarrow> nat" where
  "digitValue ch = of_char ch - 48"

definition decimalValue :: "string \<Rightarrow> nat" where
  "decimalValue ds = foldl (\<lambda>acc ch. 10 * acc + digitValue ch) 0 ds"

text \<open>
  \<^verbatim>\<open>parseFloat\<close> on the strings the source gives it, which hold digits, dots and a
  final percent sign only: the longest prefix \<open>digits\<close>, \<open>digits.\<close>, \<open>digits.digits\<close> or
  \<open>.digits\<close> is read as a decimal numeral, and a string with no such prefix gives NaN.
  (Signs, exponents, leading white space and \<^verbatim>\<open>Infinity\<close> cannot occur there.)
\<close>

definition parseFloat :: "string \<Rightarrow> jsnum" where
  "parseFloat s =
     (let whole = takeWhile isDigit s;
          rest = dropWhile isDigit s;
          frac = (if startsWith rest ''.'' then takeWhile isDigit (drop 1 rest) else [])
      in if whole = [] \<and> frac = [] then NaN
         else Num (real (decimalValue whole) + real (decimalValue frac) / 10 ^ length frac))"

text \<open>
  The class \<^verbatim>\<open>[0-9a-f]\<close> under the flag \<^verbatim>\<open>i\<close>, and the value of a digit in base 16.
\<close>

definition isHexDigit :: "char \<Rightarrow> bool" where
  "isHexDigit ch \<longleftrightarrow> ch \<in> set ''0123456789abcdefABCDEF''"

definition hexDigitValue :: "char \<Rightarrow> nat" where
  "hexDigitValue ch =
     (if isDigit ch then of_char ch - 48
      else if ch \<in> set ''abcdef'' then of_char ch - 87
      else of_char ch - 55)"

text \<open>
  \<^verbatim>\<open>parseInt(s, 16)\<close>: leading white space is skipped, a sign is read, a prefix
  \<^verbatim>\<open>0x\<close> or \<^verbatim>\<open>0X\<close> is dropped, and the longest run of hexadecimal digits is the
  value; with no digit the result is NaN.
\<close>

definition parseInt16 :: "string \<Rightarrow> jsnum" where
  "parseInt16 s =
     (let s1 = trimStart s;
          negative = startsWith s1 ''-'';
          s2 = (if startsWith s1 ''-'' \<or> startsWith s1 ''+'' then drop 1 s1 else s1);
          s3 = (if startsWith s2 ''0x'' \<or> startsWith s2 ''0X'' then drop 2 s2 else s2);
          z = takeWhile isHexDigit s3
      in if z = [] then NaN
         else let n = real (foldl (\<lambda>acc ch. 16 * acc + hexDigitValue ch) 0 z)
              in Num (if negative then - n else n))"

subsection \<open>Colours and errors\<close>

text \<open>\<^verbatim>\<open>FigmaColor\<close>: the field \<open>a\<close> is optional.\<close>

record FigmaColor =
  r :: jsnum
  g :: jsnum
  b :: jsnum
  a :: "jsnum option"

text \<open>
  The exceptions of the source, one constructor for each message, with the string the
  message ends with:
  \<^item> \<open>InvalidExpression\<close>: ``Cannot resolve CSS variable without fallback: ...'';
  \<^item> \<open>UnsupportedFormat\<close>: ``Unsupported color format: ...'';
  \<^item> \<open>InvalidOklch\<close>: ``Invalid OKLCH format: ...'';
  \<^item> \<open>ConversionFailed\<close>: ``Failed to convert OKLCH to RGB: ...'';
  \<^item> \<open>InvalidHex\<close>: ``Invalid hex color: ...''.
\<close>

datatype error =
    InvalidExpression string
  | UnsupportedFormat string
  | InvalidOklch string
  | ConversionFailed string
  | InvalidHex string

subsection \<open>\<^verbatim>\<open>extractCssVarFallback\<close>\<close>

text \<open>
  The loop over the characters of \<^verbatim>\<open>end\<close>: the first argument is what is left to
  read, \<open>i\<close> the index of its first character, \<open>depth\<close> the counter. The result is the
  index of the first comma read while the depth is 1, or \<open>None\<close> for the source's -1.
\<close>

fun scanComma :: "string \<Rightarrow> nat \<Rightarrow> int \<Rightarrow> nat option" where
  "scanComma [] i depth = None"
| "scanComma (ch # rest) i depth =
     (if ch = CHR ''('' then scanComma rest (i + 1) (depth + 1)
      else if ch = CHR '')'' then scanComma rest (i + 1) (depth - 1)
      else if ch = CHR '','' \<and> depth = 1 then Some i
      else scanComma rest (i + 1) depth)"

definition extractCssVarFallback :: "string \<Rightarrow> string option" where
  "extractCssVarFallback v =
     (let s = trim v in
      if \<not> startsWith s ''var('' then None
      else
        let end' = trimEnd s in
        if \<not> endsWith end' '')'' then None
        else
          (case scanComma end' 0 0 of
             None \<Rightarrow> None
           | Some commaIndex \<Rightarrow>
               let closeIndex = length end' - 1
               in Some (trim (slice end' (commaIndex + 1) closeIndex))))"

subsection \<open>\<^verbatim>\<open>convertHexToFigma\<close>\<close>

text \<open>
  \<^verbatim>\<open>hex.replace(/^#([0-9a-f])([0-9a-f])([0-9a-f])$/i, "#$1$1$2$2$3$3")\<close>: a string
  that the pattern does not match is returned as it is.
\<close>

fun expandShorthand :: "string \<Rightarrow> string" where
  "expandShorthand [h, x, y, z] =
     (if h = CHR ''#'' \<and> isHexDigit x \<and> isHexDigit y \<and> isHexDigit z
      then [h, x, x, y, y, z, z] else [h, x, y, z])"
| "expandShorthand hex = hex"

text \<open>\<^verbatim>\<open>normalized.match(/^#([0-9a-f]{6})$/i)\<close>: the first group, when it matches.\<close>

definition matchHex6 :: "string \<Rightarrow> string option" where
  "matchHex6 normalized =
     (if startsWith normalized ''#'' \<and> length normalized = 7 \<and>
         list_all isHexDigit (drop 1 normalized)
      then Some (drop 1 normalized) else None)"

definition convertHexToFigma :: "string \<Rightarrow> error + FigmaColor" where
  "convertHexToFigma hex =
     (let normalized = expandShorthand hex in
      case matchHex6 normalized of
        None \<Rightarrow> Inl (InvalidHex hex)
      | Some hexValue \<Rightarrow>
          Inr \<lparr> r = divBy (parseInt16 (slice hexValue 0 2)) 255,
                g = divBy (parseInt16 (slice hexValue 2 4)) 255,
                b = divBy (parseInt16 (slice hexValue 4 6)) 255,
                a = None \<rparr>)"

subsection \<open>\<^verbatim>\<open>convertOklchToFigma\<close>\<close>

text \<open>The class \<^verbatim>\<open>[0-9.]\<close>.\<close>

definition isNumChar :: "char \<Rightarrow> bool" where
  "isNumChar ch \<longleftrightarrow> isDigit ch \<or> ch = CHR ''.''"

text \<open>The groups of a match: the fourth one is \<open>None\<close> when the source has \<^verbatim>\<open>undefined\<close>.\<close>

record OklchMatch =
  lightnessStr :: string
  chromaStr :: string
  hueStr :: string
  alphaStr :: "string option"

text \<open>
  The optional group \<^verbatim>\<open>(?:\/\s*([0-9.]+))\<close> at the start of a string: the text of its
  inner group and what follows the match.
\<close>

definition matchAlphaGroup :: "string \<Rightarrow> (string \<times> string) option" where
  "matchAlphaGroup s =
     (if \<not> startsWith s ''/'' then None
      else
        let s1 = dropWhile isWhiteSpace (drop 1 s);
            tok = takeWhile isNumChar s1
        in if tok = [] then None else Some (tok, dropWhile isNumChar s1))"

text \<open>
  The regular expression
  \<^verbatim>\<open>oklch\(\s*([0-9.]+%?)\s+([0-9.]+)\s+([0-9.]+)\s*(?:\/\s*([0-9.]+))?\s*\)\<close>
  tried at the start of a string. Each quantifier is greedy, and what may follow it starts
  with a character outside its class, so a shorter repetition never leads to a match: the
  matcher takes the longest run at each step.
\<close>

definition matchOklchAt :: "string \<Rightarrow> OklchMatch option" where
  "matchOklchAt s =
     (if \<not> startsWith s ''oklch('' then None
      else
        let s1 = dropWhile isWhiteSpace (drop 6 s);
            num1 = takeWhile isNumChar s1;
            s2 = dropWhile isNumChar s1;
            pct = (if startsWith s2 ''%'' then ''%'' else []);
            s3 = drop (length pct) s2;
            s4 = dropWhile isWhiteSpace s3;
            num2 = takeWhile isNumChar s4;
            s5 = dropWhile isNumChar s4;
            s6 = dropWhile isWhiteSpace s5;
            num3 = takeWhile isNumChar s6;
            s7 = dropWhile isWhiteSpace (dropWhile isNumChar s6);
            grp = matchAlphaGroup s7;
            s8 = dropWhile isWhiteSpace (case grp of None \<Rightarrow> s7 | Some (tok, rest) \<Rightarrow> rest)
        in if num1 = [] \<or> takeWhile isWhiteSpace s3 = [] \<or> num2 = [] \<or>
              takeWhile isWhiteSpace s5 = [] \<or> num3 = [] \<or> \<not> startsWith s8 '')''
           then None
           else Some \<lparr> lightnessStr = num1 @ pct, chromaStr = num2, hueStr = num3,
                        alphaStr = map_option fst grp \<rparr>)"

text \<open>
  \<^verbatim>\<open>oklchString.match(...)\<close>: the expression has no anchor, so it is tried at every
  index from the left and the first match is the result.
\<close>

fun matchOklch :: "string \<Rightarrow> OklchMatch option" where
  "matchOklch [] = matchOklchAt []"
| "matchOklch (ch # rest) =
     (case matchOklchAt (ch # rest) of
        Some m \<Rightarrow> Some m
      | None \<Rightarrow> matchOklch rest)"

text \<open>
  \<^verbatim>\<open>rgb\<close> of the library culori is not part of the repository: the conversion of an
  OKLCH colour \<open>l c h\<close> is a parameter, which returns the three channels or \<open>None\<close> for
  \<^verbatim>\<open>undefined\<close>.
\<close>

type_synonym conversion = "jsnum \<Rightarrow> jsnum \<Rightarrow> jsnum \<Rightarrow> (jsnum \<times> jsnum \<times> jsnum) option"

definition convertOklchToFigma :: "conversion \<Rightarrow> string \<Rightarrow> error + FigmaColor" where
  "convertOklchToFigma rgb oklchString =
     (case matchOklch oklchString of
        None \<Rightarrow> Inl (InvalidOklch oklchString)
      | Some m \<Rightarrow>
          let lightness = parseFloat (lightnessStr m);
              lightness = (if CHR ''%'' \<in> set (lightnessStr m) then divBy lightness 100
                           else lightness);
              chroma = parseFloat (chromaStr m);
              hue = parseFloat (hueStr m);
              alpha = (case alphaStr m of
                         None \<Rightarrow> None
                       | Some str \<Rightarrow> if str = [] then None else Some (parseFloat str))
          in (case rgb lightness chroma hue of
                None \<Rightarrow> Inl (ConversionFailed oklchString)
              | Some (red, green, blue) \<Rightarrow>
                  Inr \<lparr> r = mathMax (Num 0) (mathMin (Num 1) red),
                        g = mathMax (Num 0) (mathMin (Num 1) green),
                        b = mathMax (Num 0) (mathMin (Num 1) blue),
                        a = alpha \<rparr>))"

subsection \<open>\<^verbatim>\<open>resolveColor\<close>\<close>

lemma length_trimStart: "length (trimStart s) \<le> length s"
  by (simp add: trimStart_def length_dropWhile_le)

lemma length_trimEnd: "length (trimEnd s) \<le> length s"
  using length_dropWhile_le [of isWhiteSpace "rev s"] by (simp add: trimEnd_def)

lemma length_trim: "length (trim s) \<le> length s"
  using length_trimEnd [of "trimStart s"] length_trimStart [of s] by (simp add: trim_def)

lemma length_fallback:
  assumes "extractCssVarFallback v = Some fallback"
  shows "length fallback < length v"
proof -
  let ?e = "trimEnd (trim v)"
  from assms obtain commaIndex where e: "endsWith ?e '')''"
    and f: "fallback = trim (slice ?e (commaIndex + 1) (length ?e - 1))"
    by (auto simp: extractCssVarFallback_def Let_def split: if_splits option.splits)
  from e have "0 < length ?e" by (auto simp: endsWith_def)
  then have "length (slice ?e (commaIndex + 1) (length ?e - 1)) < length ?e"
    by (simp add: slice_def)
  moreover have "length ?e \<le> length v"
    using length_trimEnd [of "trim v"] length_trim [of v] by simp
  ultimately show ?thesis
    using length_trim [of "slice ?e (commaIndex + 1) (length ?e - 1)"] f by simp
qed

text \<open>
  The recursion of the source is on the fallback, a shorter string: the function is
  defined by well-founded recursion on the length of its argument.
\<close>

function resolveColor :: "conversion \<Rightarrow> string \<Rightarrow> error + FigmaColor" where
  "resolveColor rgb v =
     (if trim v = ''transparent'' then Inr \<lparr> r = Num 0, g = Num 0, b = Num 0, a = Some (Num 0) \<rparr>
      else if startsWith (trim v) ''var('' then
        (case extractCssVarFallback (trim v) of
           None \<Rightarrow> Inl (InvalidExpression v)
         | Some fallback \<Rightarrow>
             if fallback = [] then Inl (InvalidExpression v)
             else resolveColor rgb fallback)
      else if startsWith (trim v) ''oklch('' then convertOklchToFigma rgb (trim v)
      else if startsWith (trim v) ''#'' then convertHexToFigma (trim v)
      else Inl (UnsupportedFormat v))"
  by pat_completeness auto
termination
proof (relation "measure (\<lambda>(rgb, v). length v)")
  show "wf (measure (\<lambda>(rgb, v). length v))" by simp
next
  fix rgb :: conversion and v fallback :: string
  assume "extractCssVarFallback (trim v) = Some fallback"
  then have "length fallback < length (trim v)" by (rule length_fallback)
  then show "((rgb, fallback), (rgb, v)) \<in> measure (\<lambda>(rgb, v). length v)"
    using length_trim [of v] by simp
qed

declare resolveColor.simps [simp del]

text \<open>
  \<open>resolveColor\<close> with a bound on the depth of its recursion: the same cases, and \<open>None\<close>
  when the bound is reached before a result.
\<close>

fun resolveFuel :: "nat \<Rightarrow> conversion \<Rightarrow> string \<Rightarrow> (error + FigmaColor) option" where
  "resolveFuel 0 rgb v = None"
| "resolveFuel (Suc n) rgb v =
     (if trim v = ''transparent''
      then Some (Inr \<lparr> r = Num 0, g = Num 0, b = Num 0, a = Some (Num 0) \<rparr>)
      else if startsWith (trim v) ''var('' then
        (case extractCssVarFallback (trim v) of
           None \<Rightarrow> Some (Inl (InvalidExpression v))
         | Some fallback \<Rightarrow>
             if fallback = [] then Some (Inl (InvalidExpression v))
             else resolveFuel n rgb fallback)
      else if startsWith (trim v) ''oklch('' then Some (convertOklchToFigma rgb (trim v))
      else if startsWith (trim v) ''#'' then Some (convertHexToFigma (trim v))
      else Some (Inl (UnsupportedFormat v)))"

subsection \<open>Notions of the specification\<close>

text \<open>
  The parenthesis depth after a prefix: the opening parentheses read minus the closing
  ones. A comma at depth 1 is one that the prefix before it leaves at depth 1.
\<close>

definition parenDepth :: "string \<Rightarrow> int" where
  "parenDepth s = int (count_list s CHR ''('') - int (count_list s CHR '')'')"

definition depthOneComma :: "string \<Rightarrow> nat \<Rightarrow> bool" where
  "depthOneComma s i \<longleftrightarrow> i < length s \<and> s ! i = CHR '','' \<and> parenDepth (take i s) = 1"

text \<open>
  The expression that is resolved in the end: the trimmed input, or, for a variable
  reference with a fallback, what the fallback leads to.
\<close>

function finalExpression :: "string \<Rightarrow> string" where
  "finalExpression v =
     (if startsWith (trim v) ''var('' then
        (case extractCssVarFallback (trim v) of
           None \<Rightarrow> trim v
         | Some fallback \<Rightarrow> if fallback = [] then trim v else finalExpression fallback)
      else trim v)"
  by pat_completeness auto
termination
proof (relation "measure length")
  show "wf (measure length)" by simp
next
  fix v fallback :: string
  assume "extractCssVarFallback (trim v) = Some fallback"
  then have "length fallback < length (trim v)" by (rule length_fallback)
  then show "(fallback, v) \<in> measure length" using length_trim [of v] by simp
qed

declare finalExpression.simps [simp del]

text \<open>A channel within the unit interval; NaN is not.\<close>

fun inUnit :: "jsnum \<Rightarrow> bool" where
  "inUnit NaN = False"
| "inUnit (Num x) = (0 \<le> x \<and> x \<le> 1)"

text \<open>An OKLCH expression with an alpha clause: the match has its fourth group.\<close>

definition alphaClause :: "string \<Rightarrow> bool" where
  "alphaClause s \<longleftrightarrow> (case matchOklch s of None \<Rightarrow> False | Some m \<Rightarrow> alphaStr m \<noteq> None)"

text \<open>
  The shape \<^verbatim>\<open>oklch( L C H [ / A ] )\<close> of an OKLCH expression, as a decomposition of
  the text: a number is a run of digits and dots that is not empty, the lightness may end
  with a percent sign, white space separates the numbers, and an alpha clause is a slash
  and a number. \<open>oklchText x m\<close> holds when \<open>x\<close> has the shape and \<open>m\<close> holds its parts.
\<close>

definition isNumberToken :: "string \<Rightarrow> bool" where
  "isNumberToken t \<longleftrightarrow> t \<noteq> [] \<and> list_all isNumChar t"

definition isSpaces :: "string \<Rightarrow> bool" where
  "isSpaces w \<longleftrightarrow> list_all isWhiteSpace w"

fun alphaText :: "string \<Rightarrow> string option \<Rightarrow> bool" where
  "alphaText t None \<longleftrightarrow> t = []"
| "alphaText t (Some al) \<longleftrightarrow>
     (\<exists>w5 w6. t = ''/'' @ w5 @ al @ w6 \<and> isSpaces w5 \<and> isSpaces w6 \<and> isNumberToken al)"

definition oklchText :: "string \<Rightarrow> OklchMatch \<Rightarrow> bool" where
  "oklchText x m \<longleftrightarrow>
     (\<exists>num pct w1 w2 w3 w4 t.
        x = ''oklch('' @ w1 @ num @ pct @ w2 @ chromaStr m @ w3 @ hueStr m @ w4 @ t @ '')'' \<and>
        lightnessStr m = num @ pct \<and> isNumberToken num \<and> (pct = [] \<or> pct = ''%'') \<and>
        isNumberToken (chromaStr m) \<and> isNumberToken (hueStr m) \<and>
        isSpaces w1 \<and> isSpaces w2 \<and> w2 \<noteq> [] \<and> isSpaces w3 \<and> w3 \<noteq> [] \<and> isSpaces w4 \<and>
        alphaText t (alphaStr m))"

text \<open>
  The shape with numbers in the usual sense: digits with at most one dot among them, and
  at least one digit.
\<close>

definition isNumeral :: "string \<Rightarrow> bool" where
  "isNumeral t \<longleftrightarrow> list_all isNumChar t \<and> count_list t CHR ''.'' \<le> 1 \<and> list_ex isDigit t"

definition oklchShape :: "string \<Rightarrow> bool" where
  "oklchShape x \<longleftrightarrow>
     (\<exists>m. oklchText x m \<and> isNumeral (takeWhile isNumChar (lightnessStr m)) \<and>
        isNumeral (chromaStr m) \<and> isNumeral (hueStr m) \<and>
        (case alphaStr m of None \<Rightarrow> True | Some al \<Rightarrow> isNumeral al))"

text \<open>
  A failure without its message: two results are the same up to the message when they
  agree under \<open>map_sum forgetMessage id\<close>.
\<close>

fun forgetMessage :: "error \<Rightarrow> error" where
  "forgetMessage (InvalidExpression s) = InvalidExpression []"
| "forgetMessage (UnsupportedFormat s) = UnsupportedFormat []"
| "forgetMessage (InvalidOklch s) = InvalidOklch []"
| "forgetMessage (ConversionFailed s) = ConversionFailed []"
| "forgetMessage (InvalidHex s) = InvalidHex []"

text \<open>Balanced parentheses: no prefix closes more than it opens, and the whole closes all.\<close>

fun balancedFrom :: "string \<Rightarrow> nat \<Rightarrow> bool" where
  "balancedFrom [] d = (d = 0)"
| "balancedFrom (ch # s) d =
     (if ch = CHR ''('' then balancedFrom s (Suc d)
      else if ch = CHR '')'' then 0 < d \<and> balancedFrom s (d - 1)
      else balancedFrom s d)"

definition balanced :: "string \<Rightarrow> bool" where
  "balanced s = balancedFrom s 0"

text \<open>
  A sample conversion, to instantiate the parameter in closed examples: the three channels
  are the lightness. It is not the conversion of culori.
\<close>

definition achromatic :: conversion where
  "achromatic l c h = Some (l, l, l)"

section \<open>Properties\<close>

subsection \<open>Examples of the specification\<close>

lemma parseFloat_examples:
  "parseFloat ''21%'' = Num 21" "parseFloat ''0.006'' = Num (6 / 1000)"
  "parseFloat ''285.885'' = Num (285885 / 1000)" "parseFloat ''.5'' = Num (1 / 2)"
  "parseFloat ''5.'' = Num 5" "parseFloat ''1.2.3'' = Num (12 / 10)" "parseFloat ''.'' = NaN"
  "parseFloat ''..5'' = NaN"
  by code_simp+

lemma resolve_examples:
  "resolveColor achromatic ''transparent'' =
     Inr \<lparr> r = Num 0, g = Num 0, b = Num 0, a = Some (Num 0) \<rparr>"
  "resolveColor achromatic ''var(--x, #fff)'' = Inr \<lparr> r = Num 1, g = Num 1, b = Num 1, a = None \<rparr>"
  "resolveColor achromatic ''var(--x, #fff)'' = resolveColor achromatic ''#fff''"
  "resolveColor achromatic ''var(--x, oklch(50% 0.1 200 / 0.5))'' =
     resolveColor achromatic ''oklch(50% 0.1 200 / 0.5)''"
  "resolveColor achromatic ''#12'' = Inl (InvalidHex ''#12'')"
  "resolveColor achromatic ''rgb(0,0,0)'' = Inl (UnsupportedFormat ''rgb(0,0,0)'')"
  "resolveColor achromatic ''  #FFF  '' = Inr \<lparr> r = Num 1, g = Num 1, b = Num 1, a = None \<rparr>"
  by code_simp+

subsection \<open>Trimming\<close>

lemma trimStart_id: "s \<noteq> [] \<Longrightarrow> \<not> isWhiteSpace (hd s) \<Longrightarrow> trimStart s = s"
  by (cases s) (simp_all add: trimStart_def)

lemma trimEnd_id: "s \<noteq> [] \<Longrightarrow> \<not> isWhiteSpace (last s) \<Longrightarrow> trimEnd s = s"
  by (cases s rule: rev_cases) (simp_all add: trimEnd_def)

lemma trim_id:
  "s \<noteq> [] \<Longrightarrow> \<not> isWhiteSpace (hd s) \<Longrightarrow> \<not> isWhiteSpace (last s) \<Longrightarrow> trim s = s"
  by (simp add: trim_def trimStart_id trimEnd_id)

lemma trimEnd_idem: "trimEnd (trimEnd s) = trimEnd s"
  by (simp add: trimEnd_def)

lemma trimEnd_trim: "trimEnd (trim s) = trim s"
  by (simp add: trim_def trimEnd_idem)

lemma trimStart_blank: "list_all isWhiteSpace s \<Longrightarrow> trimStart s = []"
  by (simp add: trimStart_def list_all_iff)

lemma trim_blank: "list_all isWhiteSpace s \<Longrightarrow> trim s = []"
  by (simp add: trim_def trimStart_blank trimEnd_def)

lemma trim_space_Cons: "isWhiteSpace ch \<Longrightarrow> trim (ch # s) = trim s"
  by (simp add: trim_def trimStart_def)

lemma trimEnd_decomp: "\<exists>w. s = trimEnd s @ w \<and> list_all isWhiteSpace w"
proof -
  have "rev s = takeWhile isWhiteSpace (rev s) @ dropWhile isWhiteSpace (rev s)" by simp
  then have "s = rev (dropWhile isWhiteSpace (rev s)) @ rev (takeWhile isWhiteSpace (rev s))"
    by (metis rev_append rev_rev_ident)
  moreover have "list_all isWhiteSpace (rev (takeWhile isWhiteSpace (rev s)))"
    by (simp add: list_all_iff) (meson set_takeWhileD)
  ultimately show ?thesis unfolding trimEnd_def by blast
qed

lemma trimEnd_last: "trimEnd s \<noteq> [] \<Longrightarrow> \<not> isWhiteSpace (last (trimEnd s))"
  unfolding trimEnd_def using hd_dropWhile [of isWhiteSpace "rev s"] by (simp add: last_rev)

lemma trimStart_hd: "trimStart s \<noteq> [] \<Longrightarrow> \<not> isWhiteSpace (hd (trimStart s))"
  unfolding trimStart_def by (rule hd_dropWhile)

lemma trim_hd: assumes "trim s \<noteq> []" shows "\<not> isWhiteSpace (hd (trim s))"
proof -
  obtain w where w: "trimStart s = trim s @ w"
    using trimEnd_decomp [of "trimStart s"] by (auto simp: trim_def)
  with assms have "hd (trimStart s) = hd (trim s)" by (metis hd_append2)
  moreover have "trimStart s \<noteq> []" using w assms by auto
  ultimately show ?thesis using trimStart_hd by metis
qed

lemma trim_last: "trim s \<noteq> [] \<Longrightarrow> \<not> isWhiteSpace (last (trim s))"
  unfolding trim_def by (rule trimEnd_last)

lemma trim_trim: "trim (trim s) = trim s"
proof (cases "trim s = []")
  case True
  moreover have "trim [] = []" by (simp add: trim_def trimStart_def trimEnd_def)
  ultimately show ?thesis by simp
next
  case False
  then show ?thesis by (intro trim_id trim_hd trim_last)
qed

subsection \<open>The scan for the separating comma\<close>

lemma parenDepth_Nil: "parenDepth [] = 0"
  by (simp add: parenDepth_def)

lemma parenDepth_Cons:
  "parenDepth (ch # s) =
     (if ch = CHR ''('' then 1 else if ch = CHR '')'' then - 1 else 0) + parenDepth s"
  by (simp add: parenDepth_def)

lemma scanComma_None:
  "scanComma s i d = None \<Longrightarrow> j < length s \<Longrightarrow> s ! j = CHR '','' \<Longrightarrow>
     d + parenDepth (take j s) \<noteq> 1"
proof (induction s arbitrary: i d j)
  case Nil
  then show ?case by simp
next
  case (Cons ch rest)
  show ?case
  proof (cases j)
    case 0
    with Cons.prems show ?thesis by (auto simp: parenDepth_Nil split: if_splits)
  next
    case (Suc j')
    with Cons.prems have j': "j' < length rest" "rest ! j' = CHR '',''" by simp_all
    show ?thesis
    proof (cases "ch = CHR ''(''")
      case True
      with Cons.prems have "scanComma rest (i + 1) (d + 1) = None" by simp
      from Cons.IH [OF this j'] show ?thesis using True Suc by (simp add: parenDepth_Cons)
    next
      case False
      show ?thesis
      proof (cases "ch = CHR '')''")
        case True
        with Cons.prems have "scanComma rest (i + 1) (d - 1) = None" by simp
        from Cons.IH [OF this j'] show ?thesis using True Suc by (simp add: parenDepth_Cons)
      next
        case False
        with \<open>ch \<noteq> CHR ''(''\<close> Cons.prems have "scanComma rest (i + 1) d = None"
          by (simp split: if_splits)
        from Cons.IH [OF this j'] show ?thesis
          using False \<open>ch \<noteq> CHR ''(''\<close> Suc by (simp add: parenDepth_Cons)
      qed
    qed
  qed
qed

lemma scanComma_Some:
  "scanComma s i d = Some k \<Longrightarrow>
     \<exists>j<length s. k = i + j \<and> s ! j = CHR '','' \<and> d + parenDepth (take j s) = 1 \<and>
       (\<forall>j'<j. \<not> (s ! j' = CHR '','' \<and> d + parenDepth (take j' s) = 1))"
proof (induction s arbitrary: i d)
  case Nil
  then show ?case by simp
next
  case (Cons ch rest)
  let ?step = "if ch = CHR ''('' then 1 else if ch = CHR '')'' then - 1 else (0::int)"
  show ?case
  proof (cases "ch = CHR '','' \<and> d = 1")
    case True
    with Cons.prems have "k = i" by simp
    with True show ?thesis by (intro exI [of _ 0]) (simp add: parenDepth_Nil)
  next
    case False
    with Cons.prems have "scanComma rest (i + 1) (d + ?step) = Some k"
      by (simp split: if_splits)
    from Cons.IH [OF this] obtain j where j: "j < length rest" "k = i + 1 + j"
      "rest ! j = CHR '',''" "d + ?step + parenDepth (take j rest) = 1"
      "\<forall>j'<j. \<not> (rest ! j' = CHR '','' \<and> d + ?step + parenDepth (take j' rest) = 1)"
      by auto
    have "\<forall>j'<Suc j. \<not> ((ch # rest) ! j' = CHR '','' \<and> d + parenDepth (take j' (ch # rest)) = 1)"
    proof (intro allI impI)
      fix j' assume "j' < Suc j"
      show "\<not> ((ch # rest) ! j' = CHR '','' \<and> d + parenDepth (take j' (ch # rest)) = 1)"
      proof (cases j')
        case 0
        with False show ?thesis by (simp add: parenDepth_Nil)
      next
        case (Suc n)
        with \<open>j' < Suc j\<close> j(5) have "\<not> (rest ! n = CHR '','' \<and> d + ?step + parenDepth (take n rest) = 1)"
          by simp
        with Suc show ?thesis by (simp add: parenDepth_Cons add.assoc)
      qed
    qed
    with j show ?thesis
      by (intro exI [of _ "Suc j"]) (simp add: parenDepth_Cons add.assoc)
  qed
qed

lemma scanComma_first:
  "scanComma s 0 0 = Some k \<longleftrightarrow> depthOneComma s k \<and> (\<forall>j<k. \<not> depthOneComma s j)"
proof
  assume "scanComma s 0 0 = Some k"
  from scanComma_Some [OF this] show "depthOneComma s k \<and> (\<forall>j<k. \<not> depthOneComma s j)"
    by (auto simp: depthOneComma_def)
next
  assume h: "depthOneComma s k \<and> (\<forall>j<k. \<not> depthOneComma s j)"
  then have "scanComma s 0 0 \<noteq> None"
    using scanComma_None [of s 0 0 k] by (auto simp: depthOneComma_def)
  then obtain k' where k': "scanComma s 0 0 = Some k'" by auto
  from scanComma_Some [OF this] have "depthOneComma s k'" "\<forall>j<k'. \<not> depthOneComma s j"
    by (auto simp: depthOneComma_def)
  with h have "k' = k" by (meson linorder_neqE_nat)
  with k' show "scanComma s 0 0 = Some k" by simp
qed

lemma scanComma_none: "scanComma s 0 0 = None \<longleftrightarrow> (\<forall>j. \<not> depthOneComma s j)"
proof
  assume "scanComma s 0 0 = None"
  then show "\<forall>j. \<not> depthOneComma s j"
    using scanComma_None [of s 0 0] by (auto simp: depthOneComma_def)
next
  assume h: "\<forall>j. \<not> depthOneComma s j"
  show "scanComma s 0 0 = None"
  proof (cases "scanComma s 0 0")
    case None then show ?thesis .
  next
    case (Some k)
    then have "depthOneComma s k" by (simp add: scanComma_first)
    with h show ?thesis by simp
  qed
qed

subsection \<open>Hexadecimal colours\<close>

lemma hexDigitValue_table:
  "map hexDigitValue ''0123456789abcdefABCDEF'' =
     [0, 1, 2, 3, 4, 5, 6, 7, 8, 9, 10, 11, 12, 13, 14, 15, 10, 11, 12, 13, 14, 15]"
  by code_simp

lemma hexDigit_not_space: "isHexDigit ch \<Longrightarrow> \<not> isWhiteSpace ch"
  by (auto simp: isHexDigit_def isWhiteSpace_def)

lemma parseInt16_pair:
  assumes "isHexDigit x" "isHexDigit y"
  shows "parseInt16 [x, y] = Num (real (16 * hexDigitValue x + hexDigitValue y))"
proof -
  have "\<not> isWhiteSpace x" using assms(1) by (rule hexDigit_not_space)
  moreover have "x \<noteq> CHR ''-''" "x \<noteq> CHR ''+''" "y \<noteq> CHR ''x''" "y \<noteq> CHR ''X''"
    using assms by (auto simp: isHexDigit_def)
  ultimately show ?thesis using assms
    by (simp add: parseInt16_def trimStart_def startsWith_def)
qed

lemma convertHex6:
  assumes "list_all isHexDigit [x1, x2, x3, x4, x5, x6]"
  shows "convertHexToFigma [CHR ''#'', x1, x2, x3, x4, x5, x6] =
     Inr \<lparr> r = Num (real (16 * hexDigitValue x1 + hexDigitValue x2) / 255),
           g = Num (real (16 * hexDigitValue x3 + hexDigitValue x4) / 255),
           b = Num (real (16 * hexDigitValue x5 + hexDigitValue x6) / 255),
           a = None \<rparr>"
  using assms
  by (simp add: convertHexToFigma_def matchHex6_def startsWith_def slice_def parseInt16_pair)

lemma resolve_hash:
  assumes "s \<noteq> []" "\<not> isWhiteSpace (last (CHR ''#'' # s))"
  shows "resolveColor rgb (CHR ''#'' # s) = convertHexToFigma (CHR ''#'' # s)"
proof -
  have t: "trim (CHR ''#'' # s) = CHR ''#'' # s"
    using assms by (intro trim_id) (simp_all add: isWhiteSpace_def)
  show ?thesis
    by (subst resolveColor.simps) (simp add: t startsWith_def)
qed

text \<open>
  Claim C6. For an input made of \<^verbatim>\<open>#\<close> and six hexadecimal digits, in either case,
  \<open>resolveColor\<close> succeeds: the channels are the values in base 16 of the first, second
  and third pair of digits, each divided by 255, and there is no field \<open>a\<close>.
\<close>

theorem C6_hex6:
  assumes "list_all isHexDigit [x1, x2, x3, x4, x5, x6]"
  shows "resolveColor rgb [CHR ''#'', x1, x2, x3, x4, x5, x6] =
     Inr \<lparr> r = Num (real (16 * hexDigitValue x1 + hexDigitValue x2) / 255),
           g = Num (real (16 * hexDigitValue x3 + hexDigitValue x4) / 255),
           b = Num (real (16 * hexDigitValue x5 + hexDigitValue x6) / 255),
           a = None \<rparr>"
proof -
  have "\<not> isWhiteSpace x6" using assms by (simp add: hexDigit_not_space)
  then have "resolveColor rgb [CHR ''#'', x1, x2, x3, x4, x5, x6] =
      convertHexToFigma [CHR ''#'', x1, x2, x3, x4, x5, x6]"
    by (intro resolve_hash) simp_all
  then show ?thesis using assms by (simp only: convertHex6)
qed

text \<open>The example of the specification: \<^verbatim>\<open>#f6821f\<close> gives 0xf6/255, 0x82/255 and 0x1f/255.\<close>

theorem C6_hex6_witness:
  "list_all isHexDigit ''f6821f'' \<and>
   resolveColor achromatic ''#f6821f'' =
     Inr \<lparr> r = Num (246 / 255), g = Num (130 / 255), b = Num (31 / 255), a = None \<rparr>"
  using C6_hex6 [of "CHR ''f''" "CHR ''6''" "CHR ''8''" "CHR ''2''" "CHR ''1''" "CHR ''f''" achromatic]
  by (simp add: isHexDigit_def hexDigitValue_def isDigit_def)

text \<open>
  Claim C7. For hexadecimal digits \<open>x\<close>, \<open>y\<close>, \<open>z\<close>, in either case, the shorthand
  \<^verbatim>\<open>#xyz\<close> resolves to what \<^verbatim>\<open>#xxyyzz\<close> resolves to.
\<close>

theorem C7_hex3:
  assumes "isHexDigit x" "isHexDigit y" "isHexDigit z"
  shows "resolveColor rgb [CHR ''#'', x, y, z] = resolveColor rgb [CHR ''#'', x, x, y, y, z, z]"
proof -
  have nz: "\<not> isWhiteSpace z" using assms by (simp add: hexDigit_not_space)
  have "resolveColor rgb [CHR ''#'', x, y, z] = convertHexToFigma [CHR ''#'', x, y, z]"
    using nz by (intro resolve_hash) simp_all
  moreover have "resolveColor rgb [CHR ''#'', x, x, y, y, z, z] =
      convertHexToFigma [CHR ''#'', x, x, y, y, z, z]"
    using nz by (intro resolve_hash) simp_all
  moreover have "convertHexToFigma [CHR ''#'', x, y, z] =
      convertHexToFigma [CHR ''#'', x, x, y, y, z, z]"
    using assms by (simp add: convertHexToFigma_def matchHex6_def startsWith_def)
  ultimately show ?thesis by simp
qed

theorem C7_hex3_witness:
  "isHexDigit CHR ''F'' \<and> isHexDigit CHR ''a'' \<and> isHexDigit CHR ''0'' \<and>
   resolveColor achromatic ''#Fa0'' = resolveColor achromatic ''#FFaa00'' \<and>
   resolveColor achromatic ''#Fa0'' =
     Inr \<lparr> r = Num 1, g = Num (2 / 3), b = Num 0, a = None \<rparr>"
proof -
  have h: "isHexDigit CHR ''F''" "isHexDigit CHR ''a''" "isHexDigit CHR ''0''"
    by (simp_all add: isHexDigit_def)
  have "resolveColor achromatic ''#FFaa00'' =
      Inr \<lparr> r = Num 1, g = Num (2 / 3), b = Num 0, a = None \<rparr>"
    by code_simp
  then show ?thesis using h C7_hex3 [OF h, of achromatic] by simp
qed

subsection \<open>Variable references\<close>

lemma extract_trimmed:
  "extractCssVarFallback (trim v) =
     (if \<not> startsWith (trim v) ''var('' \<or> \<not> endsWith (trim v) '')'' then None
      else case scanComma (trim v) 0 0 of
             None \<Rightarrow> None
           | Some k \<Rightarrow> Some (trim (slice (trim v) (k + 1) (length (trim v) - 1))))"
  by (auto simp: extractCssVarFallback_def Let_def trim_trim trimEnd_trim split: option.splits)

lemma var_not_transparent: "startsWith s ''var('' \<Longrightarrow> s \<noteq> ''transparent''"
  by (auto simp: startsWith_def)

lemma resolve_var:
  assumes "startsWith (trim v) ''var(''"
  shows "resolveColor rgb v =
     (case extractCssVarFallback (trim v) of
        None \<Rightarrow> Inl (InvalidExpression v)
      | Some fallback \<Rightarrow>
          if fallback = [] then Inl (InvalidExpression v) else resolveColor rgb fallback)"
  using assms var_not_transparent [OF assms] by (subst resolveColor.simps) simp

text \<open>
  Claim C8. When the trimmed input starts with \<^verbatim>\<open>var(\<close> and has no fallback, because
  it does not end with a closing parenthesis or because none of its commas is at
  parenthesis depth 1, \<open>resolveColor\<close> fails with the error of a variable reference
  without fallback, which names the input.
\<close>

theorem C8_no_fallback:
  assumes "startsWith (trim v) ''var(''"
    and "\<not> endsWith (trim v) '')'' \<or> (\<forall>i. \<not> depthOneComma (trim v) i)"
  shows "resolveColor rgb v = Inl (InvalidExpression v)"
proof -
  from assms(2) have "extractCssVarFallback (trim v) = None"
    by (auto simp: extract_trimmed scanComma_none [symmetric])
  then show ?thesis by (simp add: resolve_var [OF assms(1)])
qed

theorem C8_no_fallback_witness:
  "startsWith (trim ''var(--x)'') ''var('' \<and> (\<forall>i. \<not> depthOneComma (trim ''var(--x)'') i) \<and>
   resolveColor achromatic ''var(--x)'' = Inl (InvalidExpression ''var(--x)'')"
proof -
  have t: "trim ''var(--x)'' = ''var(--x)''" by code_simp
  have s: "startsWith (trim ''var(--x)'') ''var(''" by code_simp
  have "scanComma ''var(--x)'' 0 0 = None" by code_simp
  then have "\<forall>i. \<not> depthOneComma ''var(--x)'' i"
    using scanComma_none [of "''var(--x)''"] by blast
  then have n: "\<forall>i. \<not> depthOneComma (trim ''var(--x)'') i"
    unfolding t .
  from C8_no_fallback [OF s disjI2 [OF n], of achromatic] s n show ?thesis by simp
qed

text \<open>
  Claim C10. When the trimmed input starts with \<^verbatim>\<open>var(\<close>, ends with a closing
  parenthesis, and the text between its first comma at depth 1 and that final parenthesis
  is empty or white space only, \<open>resolveColor\<close> fails with the same error as for a
  reference without fallback: the empty fallback is not resolved.
\<close>

theorem C10_blank_fallback:
  assumes "startsWith (trim v) ''var(''" and "endsWith (trim v) '')''"
    and "depthOneComma (trim v) k" and "\<not> (\<exists>j<k. depthOneComma (trim v) j)"
    and "list_all isWhiteSpace (slice (trim v) (k + 1) (length (trim v) - 1))"
  shows "resolveColor rgb v = Inl (InvalidExpression v)"
proof -
  from assms(3,4) have "scanComma (trim v) 0 0 = Some k" by (simp add: scanComma_first)
  with assms(1,2,5) have "extractCssVarFallback (trim v) = Some []"
    by (simp add: extract_trimmed trim_blank)
  then show ?thesis by (simp add: resolve_var [OF assms(1)])
qed

theorem C10_blank_fallback_witness:
  "startsWith (trim ''var(--x,   )'') ''var('' \<and> endsWith (trim ''var(--x,   )'') '')'' \<and>
   depthOneComma (trim ''var(--x,   )'') 7 \<and>
   \<not> (\<exists>j<7. depthOneComma (trim ''var(--x,   )'') j) \<and>
   list_all isWhiteSpace (slice (trim ''var(--x,   )'') (7 + 1) (length (trim ''var(--x,   )'') - 1)) \<and>
   resolveColor achromatic ''var(--x,   )'' = Inl (InvalidExpression ''var(--x,   )'')"
proof -
  have t: "trim ''var(--x,   )'' = ''var(--x,   )''" by code_simp
  have s: "startsWith (trim ''var(--x,   )'') ''var(''" by code_simp
  have e: "endsWith (trim ''var(--x,   )'') '')''" by code_simp
  have "scanComma ''var(--x,   )'' 0 0 = Some 7" by code_simp
  then have "depthOneComma ''var(--x,   )'' 7 \<and> (\<forall>j<7. \<not> depthOneComma ''var(--x,   )'' j)"
    using scanComma_first [of "''var(--x,   )''" 7] by blast
  then have k: "depthOneComma (trim ''var(--x,   )'') 7"
    and f: "\<not> (\<exists>j<7. depthOneComma (trim ''var(--x,   )'') j)"
    unfolding t by blast+
  have w: "list_all isWhiteSpace
      (slice (trim ''var(--x,   )'') (7 + 1) (length (trim ''var(--x,   )'') - 1))"
    by code_simp
  from C10_blank_fallback [OF s e k f w, of achromatic] s e k f w show ?thesis by blast
qed
lemma scanComma_skip:
  "\<forall>ch\<in>set p. ch \<noteq> CHR ''('' \<and> ch \<noteq> CHR '')'' \<and> ch \<noteq> CHR '','' \<Longrightarrow>
     scanComma (p @ rest) i d = scanComma rest (i + length p) d"
  by (induction p arbitrary: i) simp_all

lemma extract_var:
  assumes "\<forall>ch\<in>set name. ch \<noteq> CHR ''('' \<and> ch \<noteq> CHR '')'' \<and> ch \<noteq> CHR '',''"
  shows "extractCssVarFallback (''var(--'' @ name @ '','' @ txt @ '')'') = Some (trim txt)"
proof -
  let ?v = "''var(--'' @ name @ '','' @ txt @ '')''"
  have t: "trim ?v = ?v" by (intro trim_id) (simp_all add: isWhiteSpace_def)
  have "scanComma ?v 0 0 = scanComma (name @ '','' @ txt @ '')'') 6 1"
    by (simp add: eval_nat_numeral)
  also have "\<dots> = scanComma ('','' @ txt @ '')'') (6 + length name) 1"
    using assms by (rule scanComma_skip)
  also have "\<dots> = Some (6 + length name)" by simp
  finally have k: "scanComma ?v 0 0 = Some (6 + length name)" .
  define pre where "pre = ''var(--'' @ name @ '',''"
  have "slice (pre @ txt @ '')'') (length pre) (length (pre @ txt @ '')'') - 1) = txt"
    by (simp add: slice_def)
  moreover have "length pre = 6 + length name + 1" "pre @ txt @ '')'' = ?v"
    by (simp_all add: pre_def)
  ultimately have "slice ?v (6 + length name + 1) (length ?v - 1) = txt"
    by (simp only:)
  moreover have "startsWith ?v ''var(''" "endsWith ?v '')''"
    by (simp_all add: startsWith_def endsWith_def)
  ultimately show ?thesis
    using extract_trimmed [of ?v] k by (simp only: t) simp
qed

lemma resolve_trim:
  "map_sum forgetMessage id (resolveColor rgb (trim e)) = map_sum forgetMessage id (resolveColor rgb e)"
  by (subst (1 2) resolveColor.simps) (simp add: trim_trim split: option.splits)

text \<open>
  Claim C1, amended. For a variable name without comma and parenthesis and a text \<open>e\<close>
  that is not empty and not white space only, \<^verbatim>\<open>var(--name, e)\<close> resolves to what the
  trimmed \<open>e\<close> resolves to, value or failure. This is the result of \<open>e\<close> itself when
  \<open>e\<close> has no white space around it or resolves to a colour, and otherwise the same
  failure up to its message, which names the trimmed text. The parentheses of \<open>e\<close> need
  not be balanced.
\<close>

theorem C1_var_fallback:
  assumes "list_all (\<lambda>ch. ch \<noteq> CHR ''('' \<and> ch \<noteq> CHR '')'' \<and> ch \<noteq> CHR '','') name"
    and "trim e \<noteq> []"
  shows "resolveColor rgb (''var(--'' @ name @ '', '' @ e @ '')'') = resolveColor rgb (trim e) \<and>
     map_sum forgetMessage id (resolveColor rgb (''var(--'' @ name @ '', '' @ e @ '')'')) =
       map_sum forgetMessage id (resolveColor rgb e) \<and>
     (trim e = e \<longrightarrow>
        resolveColor rgb (''var(--'' @ name @ '', '' @ e @ '')'') = resolveColor rgb e) \<and>
     (\<forall>c. resolveColor rgb e = Inr c \<longrightarrow>
        resolveColor rgb (''var(--'' @ name @ '', '' @ e @ '')'') = Inr c)"
proof -
  let ?v = "''var(--'' @ name @ '', '' @ e @ '')''"
  have t: "trim ?v = ?v" by (intro trim_id) (simp_all add: isWhiteSpace_def)
  have "extractCssVarFallback ?v = Some (trim (CHR '' '' # e))"
    using extract_var [of name "CHR '' '' # e"] assms(1) by (simp add: list_all_iff)
  then have x: "extractCssVarFallback ?v = Some (trim e)"
    by (simp add: trim_space_Cons isWhiteSpace_def)
  have "startsWith (trim ?v) ''var(''" by (simp only: t) (simp add: startsWith_def)
  from resolve_var [OF this, of rgb] have 1: "resolveColor rgb ?v = resolveColor rgb (trim e)"
    using assms(2) by (simp only: t x) simp
  then have 2: "map_sum forgetMessage id (resolveColor rgb ?v) =
      map_sum forgetMessage id (resolveColor rgb e)"
    by (simp add: resolve_trim)
  have 3: "resolveColor rgb ?v = Inr c" if "resolveColor rgb e = Inr c" for c
    using 2 that by (cases "resolveColor rgb ?v") simp_all
  from 1 2 3 show ?thesis by simp
qed

theorem C1_var_fallback_witness:
  "list_all (\<lambda>ch. ch \<noteq> CHR ''('' \<and> ch \<noteq> CHR '')'' \<and> ch \<noteq> CHR '','') ''x'' \<and>
   trim ''var(--y, #000)'' \<noteq> [] \<and>
   resolveColor achromatic ''var(--x, var(--y, #000))'' =
     Inr \<lparr> r = Num 0, g = Num 0, b = Num 0, a = None \<rparr>"
proof -
  have n: "list_all (\<lambda>ch. ch \<noteq> CHR ''('' \<and> ch \<noteq> CHR '')'' \<and> ch \<noteq> CHR '','') ''x''"
    by simp
  have t: "trim ''var(--y, #000)'' = ''var(--y, #000)''" by code_simp
  have e: "trim ''var(--y, #000)'' \<noteq> []" by (simp only: t) simp
  have "resolveColor achromatic ''var(--y, #000)'' =
      Inr \<lparr> r = Num 0, g = Num 0, b = Num 0, a = None \<rparr>"
    by code_simp
  with C1_var_fallback [OF n e, of achromatic] n e show ?thesis by (simp add: t)
qed

text \<open>
  The claim as stated fails for the empty expression, whose parentheses are balanced:
  the reference fails for want of a fallback, the empty expression as an unsupported
  format. With white space after an expression that fails, the two messages differ.
\<close>

theorem C1_counterexample:
  "balanced [] \<and>
   resolveColor achromatic ''var(--x, )'' = Inl (InvalidExpression ''var(--x, )'') \<and>
   resolveColor achromatic [] = Inl (UnsupportedFormat []) \<and>
   balanced ''rgb(0,0,0) '' \<and>
   resolveColor achromatic ''var(--x, rgb(0,0,0) )'' = Inl (UnsupportedFormat ''rgb(0,0,0)'') \<and>
   resolveColor achromatic ''rgb(0,0,0) '' = Inl (UnsupportedFormat ''rgb(0,0,0) '')"
  by code_simp

subsection \<open>Termination\<close>

lemma count_take_drop: "count_list xs x = count_list (take n xs) x + count_list (drop n xs) x"
  by (metis append_take_drop_id count_list_append)

lemma count_take_le: "count_list (take n xs) x \<le> count_list xs x"
  using count_take_drop [of xs x n] by simp

lemma count_trimStart: "count_list (trimStart s) x \<le> count_list s x"
proof -
  have "count_list (takeWhile isWhiteSpace s @ dropWhile isWhiteSpace s) x = count_list s x"
    by simp
  then show ?thesis unfolding trimStart_def count_list_append by linarith
qed

lemma count_trimEnd: "count_list (trimEnd s) x \<le> count_list s x"
proof -
  obtain w where "s = trimEnd s @ w" using trimEnd_decomp by blast
  then have "count_list s x = count_list (trimEnd s) x + count_list w x"
    by (metis count_list_append)
  then show ?thesis by simp
qed

lemma count_trim: "count_list (trim s) x \<le> count_list s x"
  using count_trimEnd [of "trimStart s" x] count_trimStart [of s x] by (simp add: trim_def)

lemma parens_fallback:
  assumes "extractCssVarFallback v = Some fallback"
  shows "count_list fallback CHR ''('' < count_list v CHR ''(''"
proof -
  let ?e = "trimEnd (trim v)"
  let ?c = "\<lambda>s. count_list s CHR ''(''"
  from assms obtain k where k: "scanComma ?e 0 0 = Some k"
    and f: "fallback = trim (slice ?e (k + 1) (length ?e - 1))"
    by (auto simp: extractCssVarFallback_def Let_def split: if_splits option.splits)
  from k have "parenDepth (take k ?e) = 1" by (simp add: scanComma_first depthOneComma_def)
  then have "1 \<le> ?c (take k ?e)" by (simp add: parenDepth_def)
  also have "\<dots> \<le> ?c (take (k + 1) ?e)"
    using count_take_le [of k "take (k + 1) ?e" "CHR ''(''"] by (simp add: min_def)
  finally have "?c (drop (k + 1) ?e) < ?c ?e"
    using count_take_drop [of ?e "CHR ''(''" "k + 1"] by simp
  moreover have "?c fallback \<le> ?c (drop (k + 1) ?e)"
    unfolding f slice_def
    using count_trim [of "take (length ?e - 1 - (k + 1)) (drop (k + 1) ?e)" "CHR ''(''"]
      count_take_le [of "length ?e - 1 - (k + 1)" "drop (k + 1) ?e" "CHR ''(''"]
    by simp
  moreover have "?c ?e \<le> ?c v"
    using count_trimEnd [of "trim v" "CHR ''(''"] count_trim [of v "CHR ''(''"] by simp
  ultimately show ?thesis by simp
qed

lemma resolveFuel_enough:
  "count_list v CHR ''('' < n \<Longrightarrow> resolveFuel n rgb v = Some (resolveColor rgb v)"
proof (induction n arbitrary: v)
  case 0
  then show ?case by simp
next
  case (Suc n)
  have step: "resolveFuel n rgb fallback = Some (resolveColor rgb fallback)"
    if "extractCssVarFallback (trim v) = Some fallback" for fallback
  proof -
    from that have "count_list fallback CHR ''('' < count_list (trim v) CHR ''(''"
      by (rule parens_fallback)
    with Suc.prems count_trim [of v "CHR ''(''"] have "count_list fallback CHR ''('' < n" by simp
    then show ?thesis by (rule Suc.IH)
  qed
  show ?case
    by (subst resolveColor.simps) (simp add: step split: option.splits)
qed

text \<open>
  Claim C9. \<open>resolveColor\<close> is total: its only recursion is on the fallback of a variable
  reference, which is shorter than the input and holds fewer opening parentheses. The
  depth of the recursion is therefore bounded by the nesting of the text: with a bound one
  above the number of opening parentheses of the input, the bounded function returns, and
  it returns the result of \<open>resolveColor\<close>.
\<close>

theorem C9_terminates:
  "(\<forall>fallback. extractCssVarFallback (trim v) = Some fallback \<longrightarrow>
      length fallback < length v \<and> count_list fallback CHR ''('' < count_list v CHR ''('') \<and>
   resolveFuel (Suc (count_list v CHR ''('')) rgb v = Some (resolveColor rgb v)"
proof (intro conjI allI impI)
  fix fallback assume x: "extractCssVarFallback (trim v) = Some fallback"
  from length_fallback [OF x] length_trim [of v] show "length fallback < length v" by simp
  from parens_fallback [OF x] count_trim [of v "CHR ''(''"]
  show "count_list fallback CHR ''('' < count_list v CHR ''(''" by simp
next
  show "resolveFuel (Suc (count_list v CHR ''('')) rgb v = Some (resolveColor rgb v)"
    by (rule resolveFuel_enough) simp
qed

theorem C9_terminates_witness:
  "extractCssVarFallback (trim ''var(--x, var(--y, #000))'') = Some ''var(--y, #000)'' \<and>
   length ''var(--y, #000)'' < length ''var(--x, var(--y, #000))'' \<and>
   count_list ''var(--y, #000)'' CHR ''('' < count_list ''var(--x, var(--y, #000))'' CHR ''('' \<and>
   resolveFuel 3 achromatic ''var(--x, var(--y, #000))'' =
     Some (Inr \<lparr> r = Num 0, g = Num 0, b = Num 0, a = None \<rparr>) \<and>
   resolveColor achromatic ''var(--x, var(--y, #000))'' =
     Inr \<lparr> r = Num 0, g = Num 0, b = Num 0, a = None \<rparr>"
proof -
  have x: "extractCssVarFallback (trim ''var(--x, var(--y, #000))'') = Some ''var(--y, #000)''"
    by code_simp
  have n: "Suc (count_list ''var(--x, var(--y, #000))'' CHR ''('') = 3" by code_simp
  have f: "resolveFuel 3 achromatic ''var(--x, var(--y, #000))'' =
     Some (Inr \<lparr> r = Num 0, g = Num 0, b = Num 0, a = None \<rparr>)" by code_simp
  from C9_terminates [of "''var(--x, var(--y, #000))''" achromatic] x n f
  show ?thesis by (simp only:) simp
qed

subsection \<open>The cases of a successful resolution\<close>

lemma resolve_final:
  "resolveColor rgb v = Inr c \<Longrightarrow>
     resolveColor rgb (finalExpression v) = Inr c \<and> trim (finalExpression v) = finalExpression v \<and>
     \<not> startsWith (finalExpression v) ''var(''"
proof (induction rgb v rule: resolveColor.induct)
  case (1 rgb v)
  show ?case
  proof (cases "startsWith (trim v) ''var(''")
    case True
    with "1.prems" obtain fallback where f: "extractCssVarFallback (trim v) = Some fallback"
      "fallback \<noteq> []" "resolveColor rgb fallback = Inr c"
      by (auto simp: resolve_var split: option.splits if_splits)
    have "trim v \<noteq> ''transparent''" using True by (rule var_not_transparent)
    from "1.IH" [OF this True f(1,2,3)] have "resolveColor rgb (finalExpression fallback) = Inr c \<and>
      trim (finalExpression fallback) = finalExpression fallback \<and>
      \<not> startsWith (finalExpression fallback) ''var(''" .
    moreover have "finalExpression v = finalExpression fallback"
      using True f by (subst finalExpression.simps) simp
    ultimately show ?thesis by simp
  next
    case False
    then have fe: "finalExpression v = trim v" by (subst finalExpression.simps) simp
    from "1.prems" False have "resolveColor rgb (trim v) = Inr c"
      by (subst resolveColor.simps, subst (asm) resolveColor.simps)
        (simp add: trim_trim split: if_splits)
    with False show ?thesis by (simp add: fe trim_trim)
  qed
qed

lemma resolve_cases:
  assumes "resolveColor rgb v = Inr c"
  shows "(finalExpression v = ''transparent'' \<and>
            c = \<lparr> r = Num 0, g = Num 0, b = Num 0, a = Some (Num 0) \<rparr>) \<or>
         (startsWith (finalExpression v) ''oklch('' \<and>
            convertOklchToFigma rgb (finalExpression v) = Inr c) \<or>
         (startsWith (finalExpression v) ''#'' \<and> convertHexToFigma (finalExpression v) = Inr c)"
proof -
  let ?s = "finalExpression v"
  from resolve_final [OF assms] have s: "resolveColor rgb ?s = Inr c" "trim ?s = ?s"
    "\<not> startsWith ?s ''var(''" by simp_all
  from s(1) show ?thesis
    by (subst (asm) resolveColor.simps) (auto simp: s(2,3) split: if_splits)
qed

lemma parseFloat_nonneg: "parseFloat s = Num y \<Longrightarrow> 0 \<le> y"
  by (auto simp: parseFloat_def Let_def split: if_splits)

subsection \<open>Channels and alpha\<close>

lemma matchAlphaGroup_nonempty: "matchAlphaGroup s = Some (tok, rest) \<Longrightarrow> tok \<noteq> []"
  by (auto simp: matchAlphaGroup_def Let_def split: if_splits)

lemma matchOklchAt_alpha: "matchOklchAt s = Some m \<Longrightarrow> alphaStr m = Some str \<Longrightarrow> str \<noteq> []"
  by (auto simp: matchOklchAt_def Let_def split: if_splits dest: matchAlphaGroup_nonempty)

lemma matchOklch_alpha: "matchOklch s = Some m \<Longrightarrow> alphaStr m = Some str \<Longrightarrow> str \<noteq> []"
  by (induction s) (auto split: option.splits dest: matchOklchAt_alpha)

lemma convertOklch_Inr:
  assumes "convertOklchToFigma rgb s = Inr c"
  obtains m l ch h x y z where "matchOklch s = Some m"
    and "rgb l ch h = Some (x, y, z)"
    and "r c = mathMax (Num 0) (mathMin (Num 1) x)"
    and "g c = mathMax (Num 0) (mathMin (Num 1) y)"
    and "b c = mathMax (Num 0) (mathMin (Num 1) z)"
    and "a c = map_option parseFloat (alphaStr m)"
proof -
  from assms obtain m where m: "matchOklch s = Some m"
    by (auto simp: convertOklchToFigma_def split: option.splits)
  have al: "(case alphaStr m of None \<Rightarrow> None
             | Some str \<Rightarrow> if str = [] then None else Some (parseFloat str)) =
            map_option parseFloat (alphaStr m)"
    using matchOklch_alpha [OF m] by (cases "alphaStr m") auto
  from assms m obtain l ch h x y z where "rgb l ch h = Some (x, y, z)"
    "c = \<lparr> r = mathMax (Num 0) (mathMin (Num 1) x), g = mathMax (Num 0) (mathMin (Num 1) y),
           b = mathMax (Num 0) (mathMin (Num 1) z), a = map_option parseFloat (alphaStr m) \<rparr>"
    by (auto simp: convertOklchToFigma_def Let_def al split: option.splits)
  with m that show thesis by simp
qed

lemma clamp_unit:
  "mathMax (Num 0) (mathMin (Num 1) x) = NaN \<or> inUnit (mathMax (Num 0) (mathMin (Num 1) x))"
  by (cases x) simp_all

lemma clamp_NaN: "mathMax (Num 0) (mathMin (Num 1) x) = NaN \<longleftrightarrow> x = NaN"
  by (cases x) simp_all

lemma hexDigitValue_le:
  assumes "isHexDigit ch"
  shows "hexDigitValue ch \<le> 15"
proof -
  have "list_all (\<lambda>ch. hexDigitValue ch \<le> 15) ''0123456789abcdefABCDEF''" by code_simp
  with assms show ?thesis unfolding isHexDigit_def list_all_iff by blast
qed

lemma matchHex6_Some:
  assumes "matchHex6 n = Some hv"
  obtains x1 x2 x3 x4 x5 x6 where "n = [CHR ''#'', x1, x2, x3, x4, x5, x6]"
    and "list_all isHexDigit [x1, x2, x3, x4, x5, x6]"
proof -
  from assms have l: "length n = 7" and h: "take 1 n = ''#''" and d: "list_all isHexDigit (drop 1 n)"
    by (auto simp: matchHex6_def startsWith_def split: if_splits)
  from l obtain x0 x1 x2 x3 x4 x5 x6 where n: "n = [x0, x1, x2, x3, x4, x5, x6]"
    by (auto simp: eval_nat_numeral length_Suc_conv)
  with h d that show thesis by simp
qed

lemma convertHex_Inr:
  assumes "convertHexToFigma s = Inr c"
  shows "inUnit (r c) \<and> inUnit (g c) \<and> inUnit (b c) \<and> a c = None"
proof -
  from assms obtain hv where "matchHex6 (expandShorthand s) = Some hv"
    by (auto simp: convertHexToFigma_def split: option.splits)
  then obtain x1 x2 x3 x4 x5 x6 where n: "expandShorthand s = [CHR ''#'', x1, x2, x3, x4, x5, x6]"
    and h: "list_all isHexDigit [x1, x2, x3, x4, x5, x6]" by (rule matchHex6_Some)
  from h have v: "hexDigitValue x1 \<le> 15" "hexDigitValue x2 \<le> 15" "hexDigitValue x3 \<le> 15"
    "hexDigitValue x4 \<le> 15" "hexDigitValue x5 \<le> 15" "hexDigitValue x6 \<le> 15"
    by (simp_all add: hexDigitValue_le)
  from assms n h have "c = \<lparr> r = Num (real (16 * hexDigitValue x1 + hexDigitValue x2) / 255),
           g = Num (real (16 * hexDigitValue x3 + hexDigitValue x4) / 255),
           b = Num (real (16 * hexDigitValue x5 + hexDigitValue x6) / 255),
           a = None \<rparr>"
    by (simp add: convertHexToFigma_def matchHex6_def startsWith_def slice_def parseInt16_pair)
  with v show ?thesis by simp
qed

lemma startsWith_Cons: "startsWith s (ch # p) \<longleftrightarrow> (\<exists>t. s = ch # t \<and> startsWith t p)"
  by (cases s) (auto simp: startsWith_def)

lemma channels_unit_or_NaN:
  assumes "resolveColor rgb v = Inr c"
  shows "(r c = NaN \<or> inUnit (r c)) \<and> (g c = NaN \<or> inUnit (g c)) \<and> (b c = NaN \<or> inUnit (b c))"
proof -
  consider "c = \<lparr> r = Num 0, g = Num 0, b = Num 0, a = Some (Num 0) \<rparr>"
    | "convertOklchToFigma rgb (finalExpression v) = Inr c"
    | "convertHexToFigma (finalExpression v) = Inr c"
    using resolve_cases [OF assms] by blast
  then show ?thesis
  proof cases
    case 1
    then show ?thesis by simp
  next
    case 2
    then obtain x y z where "r c = mathMax (Num 0) (mathMin (Num 1) x)"
      "g c = mathMax (Num 0) (mathMin (Num 1) y)" "b c = mathMax (Num 0) (mathMin (Num 1) z)"
      by (rule convertOklch_Inr)
    then show ?thesis using clamp_unit [of x] clamp_unit [of y] clamp_unit [of z] by simp
  next
    case 3
    from convertHex_Inr [OF this] show ?thesis by simp
  qed
qed

text \<open>
  With a conversion that returns numbers only, every channel of a result is within the
  unit interval.
\<close>

lemma channels_in_unit:
  assumes "resolveColor rgb v = Inr c"
    and "\<And>l ch h x y z. rgb l ch h = Some (x, y, z) \<Longrightarrow> x \<noteq> NaN \<and> y \<noteq> NaN \<and> z \<noteq> NaN"
  shows "inUnit (r c) \<and> inUnit (g c) \<and> inUnit (b c)"
proof -
  consider "c = \<lparr> r = Num 0, g = Num 0, b = Num 0, a = Some (Num 0) \<rparr>"
    | "convertOklchToFigma rgb (finalExpression v) = Inr c"
    | "convertHexToFigma (finalExpression v) = Inr c"
    using resolve_cases [OF assms(1)] by blast
  then show ?thesis
  proof cases
    case 1
    then show ?thesis by simp
  next
    case 2
    then obtain l ch h x y z where "rgb l ch h = Some (x, y, z)"
      "r c = mathMax (Num 0) (mathMin (Num 1) x)"
      "g c = mathMax (Num 0) (mathMin (Num 1) y)" "b c = mathMax (Num 0) (mathMin (Num 1) z)"
      by (rule convertOklch_Inr)
    with assms(2) [of l ch h x y z] show ?thesis
      using clamp_unit [of x] clamp_unit [of y] clamp_unit [of z] by (simp add: clamp_NaN)
  next
    case 3
    from convertHex_Inr [OF this] show ?thesis by simp
  qed
qed

text \<open>
  Claim C2. The channels of a result are clamped into the unit interval, but a channel
  that the conversion returns as NaN stays NaN, which is not in the interval
  (\<open>channels_unit_or_NaN\<close>). The token \<^verbatim>\<open>.\<close> is accepted as a lightness and is read as
  NaN: when the conversion gives NaN channels for a NaN lightness, as arithmetic does,
  \<^verbatim>\<open>oklch(. 0 0)\<close> resolves to a colour whose three channels are NaN.
\<close>

theorem C2_nan_channels:
  assumes "rgb NaN (Num 0) (Num 0) = Some (NaN, NaN, NaN)"
  shows "resolveColor rgb ''oklch(. 0 0)'' = Inr \<lparr> r = NaN, g = NaN, b = NaN, a = None \<rparr>"
proof -
  have t: "trim ''oklch(. 0 0)'' = ''oklch(. 0 0)''" by code_simp
  have m: "matchOklch ''oklch(. 0 0)'' =
      Some \<lparr> lightnessStr = ''.'', chromaStr = ''0'', hueStr = ''0'', alphaStr = None \<rparr>"
    by code_simp
  have p: "parseFloat ''.'' = NaN" "parseFloat ''0'' = Num 0" by code_simp+
  have "convertOklchToFigma rgb ''oklch(. 0 0)'' = Inr \<lparr> r = NaN, g = NaN, b = NaN, a = None \<rparr>"
    using assms by (simp only: convertOklchToFigma_def m) (simp add: p)
  then show ?thesis by (subst resolveColor.simps) (simp add: t startsWith_def)
qed

theorem C2_nan_channels_witness:
  "achromatic NaN (Num 0) (Num 0) = Some (NaN, NaN, NaN) \<and>
   resolveColor achromatic ''oklch(. 0 0)'' = Inr \<lparr> r = NaN, g = NaN, b = NaN, a = None \<rparr> \<and>
   \<not> inUnit NaN"
proof -
  have h: "achromatic NaN (Num 0) (Num 0) = Some (NaN, NaN, NaN)" by (simp add: achromatic_def)
  from C2_nan_channels [of achromatic, OF h] h show ?thesis by simp
qed

text \<open>
  Claim C3, amended. The field \<open>a\<close> of a result, when present, is 0 for
  \<^verbatim>\<open>transparent\<close> and otherwise what \<open>parseFloat\<close> reads from the alpha token of the
  OKLCH expression, as it is: when it is a number it is at least 0, and nothing bounds it
  by 1.
\<close>

theorem C3_alpha:
  assumes "resolveColor rgb v = Inr c" and "a c = Some x"
  shows "(x = Num 0 \<and> finalExpression v = ''transparent'' \<or>
          (\<exists>m str. matchOklch (finalExpression v) = Some m \<and> alphaStr m = Some str \<and>
             x = parseFloat str)) \<and>
         (\<forall>y. x = Num y \<longrightarrow> 0 \<le> y)"
proof -
  consider "finalExpression v = ''transparent''"
      "c = \<lparr> r = Num 0, g = Num 0, b = Num 0, a = Some (Num 0) \<rparr>"
    | "convertOklchToFigma rgb (finalExpression v) = Inr c"
    | "convertHexToFigma (finalExpression v) = Inr c"
    using resolve_cases [OF assms(1)] by blast
  then show ?thesis
  proof cases
    case 1
    with assms(2) show ?thesis by auto
  next
    case 2
    then obtain m where m: "matchOklch (finalExpression v) = Some m"
      "a c = map_option parseFloat (alphaStr m)" by (rule convertOklch_Inr)
    with assms(2) obtain str where "alphaStr m = Some str" "x = parseFloat str" by auto
    with m(1) show ?thesis using parseFloat_nonneg [of str] by auto
  next
    case 3
    from convertHex_Inr [OF this] assms(2) show ?thesis by simp
  qed
qed

theorem C3_alpha_witness:
  "resolveColor achromatic ''oklch(87% 0 0 / 0.8)'' =
     Inr \<lparr> r = Num (87 / 100), g = Num (87 / 100), b = Num (87 / 100), a = Some (Num (4 / 5)) \<rparr> \<and>
   (0::real) \<le> 4 / 5"
proof -
  have x: "resolveColor achromatic ''oklch(87% 0 0 / 0.8)'' =
     Inr \<lparr> r = Num (87 / 100), g = Num (87 / 100), b = Num (87 / 100), a = Some (Num (4 / 5)) \<rparr>"
    by code_simp
  from C3_alpha [OF x, of "Num (4 / 5)"] x show ?thesis by simp
qed

text \<open>The claim as stated fails for an alpha token above 1: the value 2 is passed on.\<close>

theorem C3_counterexample:
  "resolveColor achromatic ''oklch(50% 0 0 / 2)'' =
     Inr \<lparr> r = Num (1 / 2), g = Num (1 / 2), b = Num (1 / 2), a = Some (Num 2) \<rparr> \<and>
   \<not> inUnit (Num 2)"
  by code_simp

subsection \<open>The OKLCH pattern\<close>

text \<open>
  The matcher and the shape agree: a text of the shape, followed by anything, is matched
  with the parts of the shape as its groups, and what the matcher accepts starts with a
  text of the shape. The search returns the leftmost match.
\<close>

lemma numChar_not_space: "isNumChar ch \<Longrightarrow> \<not> isWhiteSpace ch"
  by (auto simp: isNumChar_def isDigit_def isWhiteSpace_def)

lemma space_not_numChar: "isWhiteSpace ch \<Longrightarrow> \<not> isNumChar ch"
  using numChar_not_space by blast

lemma punct_classes:
  "\<not> isNumChar CHR '')''" "\<not> isNumChar CHR ''/''" "\<not> isNumChar CHR ''%''"
  "\<not> isWhiteSpace CHR '')''" "\<not> isWhiteSpace CHR ''/''" "\<not> isWhiteSpace CHR ''%''"
  by (simp_all add: isNumChar_def isDigit_def isWhiteSpace_def)

lemma seg:
  assumes "list_all P xs" and "ys = [] \<or> \<not> P (hd ys)"
  shows "takeWhile P (xs @ ys) = xs" and "dropWhile P (xs @ ys) = ys"
proof -
  from assms(2) have "takeWhile P ys = []" "dropWhile P ys = ys" by (cases ys; auto)+
  with assms(1) show "takeWhile P (xs @ ys) = xs" "dropWhile P (xs @ ys) = ys"
    by (simp_all add: list_all_iff takeWhile_append2 dropWhile_append2)
qed

lemma token_hd: "isNumberToken t \<Longrightarrow> hd (t @ ys) = hd t \<and> isNumChar (hd t) \<and> t @ ys \<noteq> []"
  by (cases t) (simp_all add: isNumberToken_def)

lemma spaces_hd: "isSpaces w \<Longrightarrow> w \<noteq> [] \<Longrightarrow> hd (w @ ys) = hd w \<and> isWhiteSpace (hd w)"
  by (cases w) (simp_all add: isSpaces_def)

lemma alphaText_hd:
  assumes "alphaText t al"
  shows "hd (t @ CHR '')'' # post) = CHR ''/'' \<or> hd (t @ CHR '')'' # post) = CHR '')''"
  using assms by (cases al) auto

lemma spaces_tail_hd:
  assumes "isSpaces w" and "alphaText t al"
  shows "\<not> isNumChar (hd (w @ t @ CHR '')'' # post))"
proof (cases w)
  case Nil
  with alphaText_hd [OF assms(2), of post] show ?thesis
    by (auto simp: punct_classes)
next
  case (Cons ch w')
  with assms(1) have "isWhiteSpace ch" by (simp add: isSpaces_def)
  with Cons show ?thesis by (simp add: space_not_numChar)
qed

lemma matchAlphaGroup_None: "matchAlphaGroup (CHR '')'' # post) = None"
  by (simp add: matchAlphaGroup_def startsWith_def)

lemma matchAlphaGroup_Some:
  assumes "alphaText t (Some tok)"
  shows "\<exists>w6. isSpaces w6 \<and> matchAlphaGroup (t @ CHR '')'' # post) = Some (tok, w6 @ CHR '')'' # post)"
proof -
  from assms obtain w5 w6 where t: "t = ''/'' @ w5 @ tok @ w6" and w: "isSpaces w5" "isSpaces w6"
    and k: "isNumberToken tok" by auto
  let ?rest = "w6 @ CHR '')'' # post"
  have d1: "dropWhile isWhiteSpace (w5 @ tok @ ?rest) = tok @ ?rest"
    using w(1) token_hd [OF k, of ?rest] numChar_not_space
    by (intro seg) (auto simp: isSpaces_def)
  have nn: "?rest = [] \<or> \<not> isNumChar (hd ?rest)"
    using w(2) by (cases w6) (simp_all add: isSpaces_def punct_classes space_not_numChar)
  have d2: "takeWhile isNumChar (tok @ ?rest) = tok" "dropWhile isNumChar (tok @ ?rest) = ?rest"
    using k nn by (auto intro!: seg simp: isNumberToken_def)
  from k have "tok \<noteq> []" by (simp add: isNumberToken_def)
  then have "matchAlphaGroup (t @ CHR '')'' # post) = Some (tok, ?rest)"
    by (simp add: t matchAlphaGroup_def startsWith_def d1 d2)
  with w(2) show ?thesis by blast
qed

lemma spaces_paren: "isSpaces w \<Longrightarrow> dropWhile isWhiteSpace (w @ CHR '')'' # post) = CHR '')'' # post"
  using seg(2) [of isWhiteSpace w "CHR '')'' # post"] by (simp add: isSpaces_def punct_classes)

lemma matchOklchAt_complete:
  assumes "oklchText x m"
  shows "matchOklchAt (x @ post) = Some m"
proof -
  from assms obtain num pct w1 w2 w3 w4 t where
    x: "x = ''oklch('' @ w1 @ num @ pct @ w2 @ chromaStr m @ w3 @ hueStr m @ w4 @ t @ '')''"
    and l: "lightnessStr m = num @ pct" and n: "isNumberToken num" and p: "pct = [] \<or> pct = ''%''"
    and c: "isNumberToken (chromaStr m)" and h: "isNumberToken (hueStr m)"
    and w: "isSpaces w1" "isSpaces w2" "w2 \<noteq> []" "isSpaces w3" "w3 \<noteq> []" "isSpaces w4"
    and al: "alphaText t (alphaStr m)"
    unfolding oklchText_def by blast
  define r7 where "r7 = t @ CHR '')'' # post"
  define r6 where "r6 = hueStr m @ w4 @ r7"
  define r5 where "r5 = w3 @ r6"
  define r4 where "r4 = chromaStr m @ r5"
  define r3 where "r3 = w2 @ r4"
  define r2 where "r2 = pct @ r3"
  define r1 where "r1 = num @ r2"
  define s where "s = ''oklch('' @ w1 @ r1"
  note defs = r7_def r6_def r5_def r4_def r3_def r2_def r1_def
  have s0: "x @ post = s" by (simp add: x s_def defs)
  have f0: "startsWith s ''oklch(''" "drop 6 s = w1 @ r1" by (simp_all add: s_def startsWith_def)
  have e1: "dropWhile isWhiteSpace (w1 @ r1) = r1"
    unfolding r1_def
    using w(1) token_hd [OF n, of r2] numChar_not_space by (intro seg) (auto simp: isSpaces_def)
  have hd3: "isWhiteSpace (hd r3)" "r3 \<noteq> []"
    unfolding r3_def using spaces_hd [OF w(2,3), of r4] w(3) by simp_all
  have "r2 = [] \<or> \<not> isNumChar (hd r2)"
    unfolding r2_def using p hd3 by (auto simp: punct_classes space_not_numChar)
  then have e2: "takeWhile isNumChar r1 = num" "dropWhile isNumChar r1 = r2"
    unfolding r1_def using n by (auto intro!: seg simp: isNumberToken_def)
  have e3: "(if startsWith r2 ''%'' then ''%'' else []) = pct"
  proof (cases "pct = []")
    case True
    with hd3 have "hd r3 \<noteq> CHR ''%''" by (auto simp: punct_classes)
    with True hd3(2) show ?thesis unfolding r2_def by (cases r3) (auto simp: startsWith_def)
  next
    case False
    with p show ?thesis unfolding r2_def by (simp add: startsWith_def)
  qed
  have e4: "drop (length pct) r2 = r3" by (simp add: r2_def)
  have e5: "takeWhile isWhiteSpace r3 = w2" "dropWhile isWhiteSpace r3 = r4"
    unfolding r3_def r4_def
    using w(2) token_hd [OF c, of r5] numChar_not_space by (auto intro!: seg simp: isSpaces_def)
  have hd5: "isWhiteSpace (hd r5)" unfolding r5_def using spaces_hd [OF w(4,5), of r6] by simp
  then have e6: "takeWhile isNumChar r4 = chromaStr m" "dropWhile isNumChar r4 = r5"
    unfolding r4_def using c w(5)
    by (auto intro!: seg simp: isNumberToken_def space_not_numChar)
  have e7: "takeWhile isWhiteSpace r5 = w3" "dropWhile isWhiteSpace r5 = r6"
    unfolding r5_def r6_def
    using w(4) token_hd [OF h, of "w4 @ r7"] numChar_not_space
    by (auto intro!: seg simp: isSpaces_def)
  have e8: "takeWhile isNumChar r6 = hueStr m" "dropWhile isNumChar r6 = w4 @ r7"
    unfolding r6_def r7_def
    using h spaces_tail_hd [OF w(6) al, of post] by (auto intro!: seg simp: isNumberToken_def)
  have "\<not> isWhiteSpace (hd r7)"
    unfolding r7_def using alphaText_hd [OF al, of post] by (auto simp: punct_classes)
  then have e9: "dropWhile isWhiteSpace (w4 @ r7) = r7"
    using w(6) by (auto intro!: seg simp: isSpaces_def)
  have e10: "map_option fst (matchAlphaGroup r7) = alphaStr m"
    "startsWith (dropWhile isWhiteSpace
        (case matchAlphaGroup r7 of None \<Rightarrow> r7 | Some (tok, rest) \<Rightarrow> rest)) '')''"
  proof -
    have "map_option fst (matchAlphaGroup r7) = alphaStr m \<and>
      dropWhile isWhiteSpace (case matchAlphaGroup r7 of None \<Rightarrow> r7 | Some (tok, rest) \<Rightarrow> rest) =
        CHR '')'' # post"
    proof (cases "alphaStr m")
      case None
      with al show ?thesis by (simp add: r7_def matchAlphaGroup_None punct_classes)
    next
      case (Some tok)
      with al obtain w6 where "isSpaces w6"
        "matchAlphaGroup r7 = Some (tok, w6 @ CHR '')'' # post)"
        unfolding r7_def using matchAlphaGroup_Some [of t tok post] by auto
      with Some show ?thesis by (simp add: spaces_paren)
    qed
    then show "map_option fst (matchAlphaGroup r7) = alphaStr m"
      "startsWith (dropWhile isWhiteSpace
        (case matchAlphaGroup r7 of None \<Rightarrow> r7 | Some (tok, rest) \<Rightarrow> rest)) '')''"
      by (simp_all add: startsWith_def)
  qed
  have ne: "num \<noteq> []" "chromaStr m \<noteq> []" "hueStr m \<noteq> []"
    using n c h by (simp_all add: isNumberToken_def)
  have "matchOklchAt s =
      Some \<lparr> lightnessStr = num @ pct, chromaStr = chromaStr m, hueStr = hueStr m,
             alphaStr = alphaStr m \<rparr>"
    unfolding matchOklchAt_def
    by (simp add: Let_def f0 e1 e2 e3 e4 e5 e6 e7 e8 e9 e10 ne w cong: option.case_cong)
  with l show ?thesis by (simp only: s0) simp
qed

lemma list_all_takeWhile: "list_all P (takeWhile P xs)"
  by (induction xs) simp_all

lemma startsWith_append: "startsWith s p \<Longrightarrow> s = p @ drop (length p) s"
  unfolding startsWith_def by (metis append_take_drop_id)

lemma matchAlphaGroup_sound:
  assumes "matchAlphaGroup s = Some (tok, rest)"
  shows "\<exists>w5. s = ''/'' @ w5 @ tok @ rest \<and> isSpaces w5 \<and> isNumberToken tok"
proof -
  let ?d = "drop 1 s"
  let ?w = "takeWhile isWhiteSpace ?d"
  let ?s1 = "dropWhile isWhiteSpace ?d"
  from assms have st: "startsWith s ''/''" and tok: "tok = takeWhile isNumChar ?s1" "tok \<noteq> []"
    and rest: "rest = dropWhile isNumChar ?s1"
    by (auto simp: matchAlphaGroup_def Let_def split: if_splits)
  from startsWith_append [OF st] have "s = ''/'' @ ?d" by simp
  also have "?d = ?w @ ?s1" by simp
  also have "?s1 = tok @ rest" by (simp add: tok rest)
  finally have "s = ''/'' @ ?w @ tok @ rest" .
  moreover have "isSpaces ?w" by (simp add: isSpaces_def list_all_takeWhile)
  moreover have "isNumberToken tok" using tok by (simp add: isNumberToken_def list_all_takeWhile)
  ultimately show ?thesis by blast
qed

lemma matchOklchAt_sound:
  assumes "matchOklchAt s = Some m"
  shows "\<exists>x post. s = x @ post \<and> oklchText x m"
proof -
  define d where "d = drop 6 s"
  define w1 where "w1 = takeWhile isWhiteSpace d"
  define s1 where "s1 = dropWhile isWhiteSpace d"
  define num where "num = takeWhile isNumChar s1"
  define s2 where "s2 = dropWhile isNumChar s1"
  define pct where "pct = (if startsWith s2 ''%'' then ''%'' else [])"
  define s3 where "s3 = drop (length pct) s2"
  define w2 where "w2 = takeWhile isWhiteSpace s3"
  define s4 where "s4 = dropWhile isWhiteSpace s3"
  define s5 where "s5 = dropWhile isNumChar s4"
  define w3 where "w3 = takeWhile isWhiteSpace s5"
  define s6 where "s6 = dropWhile isWhiteSpace s5"
  define s6' where "s6' = dropWhile isNumChar s6"
  define w4 where "w4 = takeWhile isWhiteSpace s6'"
  define s7 where "s7 = dropWhile isWhiteSpace s6'"
  define grp where "grp = matchAlphaGroup s7"
  define s8 where "s8 = dropWhile isWhiteSpace (case grp of None \<Rightarrow> s7 | Some (tok, rest) \<Rightarrow> rest)"
  note defs = d_def w1_def s1_def num_def s2_def pct_def s3_def w2_def s4_def s5_def w3_def
    s6_def s6'_def w4_def s7_def grp_def s8_def
  from assms have st: "startsWith s ''oklch(''"
    and ne: "num \<noteq> []" "w2 \<noteq> []" "takeWhile isNumChar s4 \<noteq> []" "w3 \<noteq> []"
      "takeWhile isNumChar s6 \<noteq> []"
    and cl: "startsWith s8 '')''"
    and m: "m = \<lparr> lightnessStr = num @ pct, chromaStr = takeWhile isNumChar s4,
                  hueStr = takeWhile isNumChar s6, alphaStr = map_option fst grp \<rparr>"
    unfolding matchOklchAt_def Let_def defs by (simp_all split: if_splits)
  define post where "post = drop 1 s8"
  have s8: "s8 = CHR '')'' # post" using startsWith_append [OF cl] by (simp add: post_def)
  have "\<exists>t. s7 = t @ CHR '')'' # post \<and> alphaText t (map_option fst grp)"
  proof (cases grp)
    case None
    then have "s8 = s7" by (simp add: s8_def s7_def)
    with s8 None show ?thesis by simp
  next
    case (Some tr)
    obtain tok rest where tr: "tr = (tok, rest)" by (cases tr)
    with Some have "matchAlphaGroup s7 = Some (tok, rest)" by (simp add: grp_def)
    from matchAlphaGroup_sound [OF this] obtain w5 where
      w5: "s7 = ''/'' @ w5 @ tok @ rest" "isSpaces w5" "isNumberToken tok" by blast
    have "rest = takeWhile isWhiteSpace rest @ s8" by (simp add: s8_def Some tr)
    with w5(1) s8 have "s7 = (''/'' @ w5 @ tok @ takeWhile isWhiteSpace rest) @ CHR '')'' # post"
      by simp
    moreover have "alphaText (''/'' @ w5 @ tok @ takeWhile isWhiteSpace rest) (Some tok)"
      unfolding alphaText.simps
      apply (rule exI [of _ w5], rule exI [of _ "takeWhile isWhiteSpace rest"])
      using w5(2,3) by (simp add: isSpaces_def list_all_takeWhile)
    ultimately show ?thesis using Some tr by auto
  qed
  then obtain t where t: "s7 = t @ CHR '')'' # post" "alphaText t (map_option fst grp)" by blast
  have "length ''oklch('' = 6" by simp
  with startsWith_append [OF st] have sd: "s = ''oklch('' @ d" by (simp only: d_def)
  have chain: "d = w1 @ s1" "s1 = num @ s2" "s3 = w2 @ s4" "s4 = takeWhile isNumChar s4 @ s5"
    "s5 = w3 @ s6" "s6 = takeWhile isNumChar s6 @ s6'" "s6' = w4 @ s7"
    by (simp_all add: w1_def s1_def num_def s2_def w2_def s4_def s5_def w3_def s6_def s6'_def
        w4_def s7_def)
  have "s2 = pct @ s3"
    using startsWith_append [of s2 "''%''"] by (auto simp: pct_def s3_def)
  then have "s2 = pct @ w2 @ takeWhile isNumChar s4 @ w3 @ takeWhile isNumChar s6 @ w4 @ s7"
    using chain(3-7) by (metis append_assoc)
  with chain(1,2) have "d = w1 @ num @ pct @ w2 @ takeWhile isNumChar s4 @ w3 @
      takeWhile isNumChar s6 @ w4 @ t @ CHR '')'' # post"
    by (simp only: t(1))
  with sd have "s = ''oklch('' @ w1 @ num @ pct @ w2 @ takeWhile isNumChar s4 @ w3 @
      takeWhile isNumChar s6 @ w4 @ t @ CHR '')'' # post"
    by (simp only:)
  then have "s = (''oklch('' @ w1 @ num @ pct @ w2 @ takeWhile isNumChar s4 @ w3 @
      takeWhile isNumChar s6 @ w4 @ t @ '')'') @ post" by simp
  moreover have "oklchText (''oklch('' @ w1 @ num @ pct @ w2 @ takeWhile isNumChar s4 @ w3 @
      takeWhile isNumChar s6 @ w4 @ t @ '')'') m"
    unfolding oklchText_def
    apply (rule exI [of _ num], rule exI [of _ pct], rule exI [of _ w1], rule exI [of _ w2],
        rule exI [of _ w3], rule exI [of _ w4], rule exI [of _ t])
    using ne t(2)
    by (simp add: m isNumberToken_def isSpaces_def list_all_takeWhile num_def w1_def w2_def w3_def
        w4_def pct_def)
  ultimately show ?thesis by blast
qed

lemma matchOklchAt_Nil: "matchOklchAt [] = None"
  by (simp add: matchOklchAt_def startsWith_def)

lemma matchOklch_None_iff: "matchOklch s = None \<longleftrightarrow> (\<forall>n. matchOklchAt (drop n s) = None)"
proof (induction s)
  case Nil
  then show ?case by simp
next
  case (Cons ch rest)
  have "(\<forall>n. matchOklchAt (drop n (ch # rest)) = None) \<longleftrightarrow>
      matchOklchAt (ch # rest) = None \<and> (\<forall>n. matchOklchAt (drop n rest) = None)"
    by (metis drop0 drop_Suc_Cons not0_implies_Suc)
  with Cons.IH show ?case by (simp split: option.splits)
qed

lemma matchOklch_Some_iff:
  "matchOklch s = Some m \<longleftrightarrow>
     (\<exists>n. matchOklchAt (drop n s) = Some m \<and> (\<forall>k<n. matchOklchAt (drop k s) = None))"
proof (induction s)
  case Nil
  then show ?case by (simp add: matchOklchAt_Nil)
next
  case (Cons ch rest)
  show ?case
  proof (cases "matchOklchAt (ch # rest)")
    case (Some m')
    have "(\<exists>n. matchOklchAt (drop n (ch # rest)) = Some m \<and>
        (\<forall>k<n. matchOklchAt (drop k (ch # rest)) = None)) \<longleftrightarrow> m' = m"
    proof
      assume "\<exists>n. matchOklchAt (drop n (ch # rest)) = Some m \<and>
        (\<forall>k<n. matchOklchAt (drop k (ch # rest)) = None)"
      then obtain n where n: "matchOklchAt (drop n (ch # rest)) = Some m"
        "\<forall>k<n. matchOklchAt (drop k (ch # rest)) = None" by blast
      from n(2) Some have "n = 0" by (cases n) auto
      with n(1) Some show "m' = m" by simp
    next
      assume "m' = m"
      with Some show "\<exists>n. matchOklchAt (drop n (ch # rest)) = Some m \<and>
        (\<forall>k<n. matchOklchAt (drop k (ch # rest)) = None)"
        by (intro exI [of _ 0]) simp
    qed
    with Some show ?thesis by simp
  next
    case None
    have "(\<exists>n. matchOklchAt (drop n (ch # rest)) = Some m \<and>
        (\<forall>k<n. matchOklchAt (drop k (ch # rest)) = None)) \<longleftrightarrow>
      (\<exists>n. matchOklchAt (drop n rest) = Some m \<and> (\<forall>k<n. matchOklchAt (drop k rest) = None))"
    proof
      assume "\<exists>n. matchOklchAt (drop n (ch # rest)) = Some m \<and>
        (\<forall>k<n. matchOklchAt (drop k (ch # rest)) = None)"
      then obtain n where n: "matchOklchAt (drop n (ch # rest)) = Some m"
        "\<forall>k<n. matchOklchAt (drop k (ch # rest)) = None" by blast
      from n(1) None obtain n' where n': "n = Suc n'" by (cases n) auto
      with n(2) have "\<forall>k<n'. matchOklchAt (drop k rest) = None"
        by (metis Suc_less_eq drop_Suc_Cons)
      with n(1) n' show "\<exists>n. matchOklchAt (drop n rest) = Some m \<and>
          (\<forall>k<n. matchOklchAt (drop k rest) = None)" by auto
    next
      assume "\<exists>n. matchOklchAt (drop n rest) = Some m \<and> (\<forall>k<n. matchOklchAt (drop k rest) = None)"
      then obtain n where n: "matchOklchAt (drop n rest) = Some m"
        "\<forall>k<n. matchOklchAt (drop k rest) = None" by blast
      have "\<forall>k<Suc n. matchOklchAt (drop k (ch # rest)) = None"
      proof (intro allI impI)
        fix k assume "k < Suc n"
        with n(2) None show "matchOklchAt (drop k (ch # rest)) = None" by (cases k) auto
      qed
      with n(1) show "\<exists>n. matchOklchAt (drop n (ch # rest)) = Some m \<and>
        (\<forall>k<n. matchOklchAt (drop k (ch # rest)) = None)"
        by (intro exI [of _ "Suc n"]) simp
    qed
    with None Cons.IH show ?thesis by simp
  qed
qed

lemma matchOklch_no_text:
  "matchOklch s = None \<longleftrightarrow> \<not> (\<exists>pre x post m. s = pre @ x @ post \<and> oklchText x m)"
proof
  assume n: "matchOklch s = None"
  show "\<not> (\<exists>pre x post m. s = pre @ x @ post \<and> oklchText x m)"
  proof
    assume "\<exists>pre x post m. s = pre @ x @ post \<and> oklchText x m"
    then obtain pre x post m where s: "s = pre @ x @ post" and "oklchText x m" by blast
    then have "matchOklchAt (x @ post) = Some m" by (simp add: matchOklchAt_complete)
    moreover from s have "drop (length pre) s = x @ post" by simp
    ultimately show False using n unfolding matchOklch_None_iff by (metis option.distinct(1))
  qed
next
  assume h: "\<not> (\<exists>pre x post m. s = pre @ x @ post \<and> oklchText x m)"
  show "matchOklch s = None"
  proof (rule ccontr)
    assume "matchOklch s \<noteq> None"
    then obtain m n where "matchOklchAt (drop n s) = Some m" by (auto simp: matchOklch_None_iff)
    from matchOklchAt_sound [OF this] obtain x post where "drop n s = x @ post" "oklchText x m"
      by blast
    then have "s = take n s @ x @ post \<and> oklchText x m" by (metis append_take_drop_id)
    with h show False by blast
  qed
qed

lemma matchOklch_leftmost:
  "matchOklch s = Some m \<longleftrightarrow>
     (\<exists>pre x post. s = pre @ x @ post \<and> oklchText x m \<and>
        \<not> (\<exists>pre' x' post' m'. s = pre' @ x' @ post' \<and> oklchText x' m' \<and> length pre' < length pre))"
proof
  assume "matchOklch s = Some m"
  then obtain n where n: "matchOklchAt (drop n s) = Some m"
    "\<forall>k<n. matchOklchAt (drop k s) = None" by (auto simp: matchOklch_Some_iff)
  from matchOklchAt_sound [OF n(1)] obtain x post where x: "drop n s = x @ post" "oklchText x m"
    by blast
  have "n < length s"
  proof (rule ccontr)
    assume "\<not> n < length s"
    then have "drop n s = []" by simp
    with n(1) show False by (simp add: matchOklchAt_Nil)
  qed
  then have l: "length (take n s) = n" by simp
  have s: "s = take n s @ x @ post" using x(1) by (metis append_take_drop_id)
  have "\<not> (\<exists>pre' x' post' m'. s = pre' @ x' @ post' \<and> oklchText x' m' \<and> length pre' < n)"
  proof
    assume "\<exists>pre' x' post' m'. s = pre' @ x' @ post' \<and> oklchText x' m' \<and> length pre' < n"
    then obtain pre' x' post' m' where p: "s = pre' @ x' @ post'" "oklchText x' m'"
      "length pre' < n" by blast
    from p(1) have "drop (length pre') s = x' @ post'" by simp
    with p(2) have "matchOklchAt (drop (length pre') s) = Some m'"
      by (simp add: matchOklchAt_complete)
    with n(2) p(3) show False by simp
  qed
  with s x(2) l show "\<exists>pre x post. s = pre @ x @ post \<and> oklchText x m \<and>
        \<not> (\<exists>pre' x' post' m'. s = pre' @ x' @ post' \<and> oklchText x' m' \<and> length pre' < length pre)"
    by metis
next
  assume "\<exists>pre x post. s = pre @ x @ post \<and> oklchText x m \<and>
        \<not> (\<exists>pre' x' post' m'. s = pre' @ x' @ post' \<and> oklchText x' m' \<and> length pre' < length pre)"
  then obtain pre x post where s: "s = pre @ x @ post" and t: "oklchText x m"
    and f: "\<not> (\<exists>pre' x' post' m'. s = pre' @ x' @ post' \<and> oklchText x' m' \<and>
        length pre' < length pre)" by blast
  from s have "drop (length pre) s = x @ post" by simp
  with t have 1: "matchOklchAt (drop (length pre) s) = Some m" by (simp add: matchOklchAt_complete)
  have 2: "\<forall>k<length pre. matchOklchAt (drop k s) = None"
  proof (intro allI impI, rule ccontr)
    fix k assume k: "k < length pre" and "matchOklchAt (drop k s) \<noteq> None"
    then obtain m' where "matchOklchAt (drop k s) = Some m'" by auto
    from matchOklchAt_sound [OF this] obtain x' post' where "drop k s = x' @ post'"
      "oklchText x' m'" by blast
    moreover then have "s = take k s @ x' @ post'" by (metis append_take_drop_id)
    moreover have "length (take k s) < length pre" using k s by simp
    ultimately show False using f by blast
  qed
  from 1 2 show "matchOklch s = Some m" by (auto simp: matchOklch_Some_iff)
qed

lemma oklchText_match:
  assumes "oklchText x m"
  shows "matchOklch x = Some m" and "startsWith x ''oklch(''"
proof -
  from matchOklchAt_complete [OF assms, of "[]"] have at: "matchOklchAt x = Some m" by simp
  then show "matchOklch x = Some m" by (cases x) simp_all
  from at show "startsWith x ''oklch(''" by (auto simp: matchOklchAt_def split: if_splits)
qed

lemma oklchText_last: "oklchText x m \<Longrightarrow> last x = CHR '')''"
  by (auto simp: oklchText_def)

lemma resolve_oklch:
  assumes "startsWith (trim v) ''oklch(''"
  shows "resolveColor rgb v = convertOklchToFigma rgb (trim v)"
  using assms by (subst resolveColor.simps) (auto simp: startsWith_Cons)

lemma convertOklch_invalid:
  "convertOklchToFigma rgb s = Inl (InvalidOklch s') \<longleftrightarrow> matchOklch s = None \<and> s' = s"
  by (auto simp: convertOklchToFigma_def Let_def split: option.splits)

text \<open>
  What the code does when the trimmed input starts with \<^verbatim>\<open>oklch(\<close>: it fails with the
  error of an invalid OKLCH format, which names the trimmed input, exactly when the
  pattern finds no match, that is, when no part of the trimmed input is matched by the
  pattern. The example \<^verbatim>\<open>oklch(bad)\<close> of the specification fails in this way.
\<close>

lemma invalid_oklch_iff:
  assumes "startsWith (trim v) ''oklch(''"
  shows "resolveColor rgb v = Inl (InvalidOklch (trim v)) \<longleftrightarrow>
     \<not> (\<exists>pre x post m. trim v = pre @ x @ post \<and> oklchText x m)"
  by (simp add: resolve_oklch [OF assms] convertOklch_invalid matchOklch_no_text)

lemma invalid_oklch_example:
  "resolveColor achromatic ''oklch(bad)'' = Inl (InvalidOklch ''oklch(bad)'')"
  by code_simp

text \<open>
  Claim C4. A trimmed input that starts with \<^verbatim>\<open>oklch(\<close> and does not have the shape
  \<^verbatim>\<open>oklch( L C H [ / A ] )\<close> is to fail with the error of an invalid OKLCH format. The
  code does not fail for \<^verbatim>\<open>oklch(1.2.3 0 0)\<close>, whose lightness is not a number, nor for
  \<^verbatim>\<open>oklch(1 0 0)x\<close>, which does not end with a parenthesis: neither has the shape, and
  both are resolved, the first with the lightness 1.2 and the second from the match it
  starts with, whatever the conversion.
\<close>

theorem C4_accepts_malformed:
  "trim ''oklch(1.2.3 0 0)'' = ''oklch(1.2.3 0 0)'' \<and> startsWith ''oklch(1.2.3 0 0)'' ''oklch('' \<and>
   \<not> oklchShape ''oklch(1.2.3 0 0)'' \<and>
   resolveColor achromatic ''oklch(1.2.3 0 0)'' =
     Inr \<lparr> r = Num 1, g = Num 1, b = Num 1, a = None \<rparr> \<and>
   (\<forall>rgb. resolveColor rgb ''oklch(1.2.3 0 0)'' \<noteq> Inl (InvalidOklch ''oklch(1.2.3 0 0)'')) \<and>
   trim ''oklch(1 0 0)x'' = ''oklch(1 0 0)x'' \<and> startsWith ''oklch(1 0 0)x'' ''oklch('' \<and>
   \<not> oklchShape ''oklch(1 0 0)x'' \<and>
   resolveColor achromatic ''oklch(1 0 0)x'' =
     Inr \<lparr> r = Num 1, g = Num 1, b = Num 1, a = None \<rparr> \<and>
   (\<forall>rgb. resolveColor rgb ''oklch(1 0 0)x'' \<noteq> Inl (InvalidOklch ''oklch(1 0 0)x''))"
proof -
  have t: "trim ''oklch(1.2.3 0 0)'' = ''oklch(1.2.3 0 0)''"
    "trim ''oklch(1 0 0)x'' = ''oklch(1 0 0)x''" by code_simp+
  have s: "startsWith ''oklch(1.2.3 0 0)'' ''oklch(''" "startsWith ''oklch(1 0 0)x'' ''oklch(''"
    by code_simp+
  have m1: "matchOklch ''oklch(1.2.3 0 0)'' =
      Some \<lparr> lightnessStr = ''1.2.3'', chromaStr = ''0'', hueStr = ''0'', alphaStr = None \<rparr>"
    by code_simp
  have "\<not> isNumeral (takeWhile isNumChar ''1.2.3'')" by code_simp
  then have n1: "\<not> oklchShape ''oklch(1.2.3 0 0)''"
    unfolding oklchShape_def using oklchText_match(1) [of "''oklch(1.2.3 0 0)''"] m1 by fastforce
  have n2: "\<not> oklchShape ''oklch(1 0 0)x''"
    unfolding oklchShape_def using oklchText_last [of "''oklch(1 0 0)x''"] by fastforce
  have x: "resolveColor achromatic ''oklch(1.2.3 0 0)'' =
      Inr \<lparr> r = Num 1, g = Num 1, b = Num 1, a = None \<rparr>"
    "resolveColor achromatic ''oklch(1 0 0)x'' =
      Inr \<lparr> r = Num 1, g = Num 1, b = Num 1, a = None \<rparr>" by code_simp+
  have m2: "matchOklch ''oklch(1 0 0)x'' \<noteq> None" by code_simp
  have f1: "resolveColor rgb ''oklch(1.2.3 0 0)'' \<noteq> Inl (InvalidOklch ''oklch(1.2.3 0 0)'')"
    for rgb
    using resolve_oklch [of "''oklch(1.2.3 0 0)''" rgb] s(1) m1
    by (simp only: t convertOklch_invalid) simp
  have f2: "resolveColor rgb ''oklch(1 0 0)x'' \<noteq> Inl (InvalidOklch ''oklch(1 0 0)x'')" for rgb
    using resolve_oklch [of "''oklch(1 0 0)x''" rgb] s(2) m2
    by (simp only: t convertOklch_invalid) simp
  from t s n1 n2 x f1 f2 show ?thesis by blast
qed

subsection \<open>The alpha field\<close>

text \<open>
  Claim C5. A result has the field \<open>a\<close> exactly when the expression resolved in the end
  is \<^verbatim>\<open>transparent\<close> or an OKLCH expression with an alpha clause; a hexadecimal colour
  and an OKLCH expression without the clause give no field. In particular, when the
  expression resolved in the end has the shape \<^verbatim>\<open>oklch( L C H [ / A ] )\<close>, the field is
  there exactly when the part \<^verbatim>\<open>/ A\<close> is.
\<close>

theorem C5_alpha_field:
  assumes "resolveColor rgb v = Inr c"
  shows "(a c \<noteq> None \<longleftrightarrow>
            finalExpression v = ''transparent'' \<or>
            startsWith (finalExpression v) ''oklch('' \<and> alphaClause (finalExpression v)) \<and>
         (\<forall>m. oklchText (finalExpression v) m \<longrightarrow> (a c \<noteq> None \<longleftrightarrow> alphaStr m \<noteq> None))"
proof -
  let ?s = "finalExpression v"
  consider "?s = ''transparent''" "c = \<lparr> r = Num 0, g = Num 0, b = Num 0, a = Some (Num 0) \<rparr>"
    | "startsWith ?s ''oklch(''" "convertOklchToFigma rgb ?s = Inr c"
    | "startsWith ?s ''#''" "convertHexToFigma ?s = Inr c"
    using resolve_cases [OF assms] by blast
  then have 1: "a c \<noteq> None \<longleftrightarrow>
      ?s = ''transparent'' \<or> startsWith ?s ''oklch('' \<and> alphaClause ?s"
  proof cases
    case 1
    then show ?thesis by simp
  next
    case 2
    from 2(2) obtain m where "matchOklch ?s = Some m" "a c = map_option parseFloat (alphaStr m)"
      by (rule convertOklch_Inr)
    moreover from 2(1) have "?s \<noteq> ''transparent''" by (auto simp: startsWith_Cons)
    ultimately show ?thesis using 2(1) by (simp add: alphaClause_def)
  next
    case 3
    from 3(1) have "?s \<noteq> ''transparent''" "\<not> startsWith ?s ''oklch(''"
      by (auto simp: startsWith_Cons)
    with convertHex_Inr [OF 3(2)] show ?thesis by simp
  qed
  have "a c \<noteq> None \<longleftrightarrow> alphaStr m \<noteq> None" if "oklchText ?s m" for m
  proof -
    from oklchText_match [OF that] have "matchOklch ?s = Some m" "startsWith ?s ''oklch(''" .
    moreover then have "?s \<noteq> ''transparent''" by (auto simp: startsWith_Cons)
    ultimately show ?thesis using 1 by (simp add: alphaClause_def)
  qed
  with 1 show ?thesis by blast
qed

theorem C5_alpha_field_witness:
  "resolveColor achromatic ''var(--x, oklch(87% 0 0 / 0.8))'' =
     Inr \<lparr> r = Num (87 / 100), g = Num (87 / 100), b = Num (87 / 100), a = Some (Num (4 / 5)) \<rparr> \<and>
   finalExpression ''var(--x, oklch(87% 0 0 / 0.8))'' = ''oklch(87% 0 0 / 0.8)'' \<and>
   alphaClause ''oklch(87% 0 0 / 0.8)''"
proof -
  have x: "resolveColor achromatic ''var(--x, oklch(87% 0 0 / 0.8))'' =
     Inr \<lparr> r = Num (87 / 100), g = Num (87 / 100), b = Num (87 / 100), a = Some (Num (4 / 5)) \<rparr>"
    by code_simp
  have f: "finalExpression ''var(--x, oklch(87% 0 0 / 0.8))'' = ''oklch(87% 0 0 / 0.8)''"
    by code_simp
  from C5_alpha_field [OF x] x f show ?thesis by (simp add: startsWith_def)
qed

end
